theory Spec2Isabelle
  imports Main "HOL-Library.AList" "HOL-Library.Char_ord" "HOL-Library.List_Lexorder"
    "HOL-Library.Multiset" "HOL-Library.Sublist"
begin

section \<open>The Quake log parser of \<^verbatim>\<open>src/main.py\<close>\<close>

text \<open>
  The class \<^verbatim>\<open>QuakeLogParser\<close> reads a log line by line, opens a new game at every line
  that contains \<^verbatim>\<open>InitGame:\<close> and folds every line of the kill shape into the statistics
  of the current game. The embedding keeps the three layers of the source apart: the two
  regular expressions, the two methods that change the parser object, and the loop of
  \<^verbatim>\<open>parse_log_file\<close>.

  A character is a code point below 256: the 8-bit \<^typ>\<open>char\<close> of HOL, read as
  Latin-1, which is where Unicode begins. The character classes are those of Python's
  \<^verbatim>\<open>re\<close> and \<^verbatim>\<open>str\<close> on these code points, and the order of strings is the order of
  code points, as in \<^verbatim>\<open>sorted\<close>. A log with a character beyond U+00FF is outside the model.
  A file is the list of lines that iterating over it yields.
\<close>

subsection \<open>Character classes and \<^verbatim>\<open>str.strip\<close>\<close>

text \<open>
  \<^verbatim>\<open>\s\<close> and \<^verbatim>\<open>str.isspace\<close>: tab to carriage return, the four separators, space, and
  in the upper half next line (U+0085) and no-break space (U+00A0).
\<close>

definition is_space :: "char \<Rightarrow> bool" where
  "is_space c = (let n = (of_char c :: nat) in
     (9 \<le> n \<and> n \<le> 13) \<or> (28 \<le> n \<and> n \<le> 32) \<or> n = 133 \<or> n = 160)"

text \<open>\<^verbatim>\<open>\d\<close>: the decimal digits (below U+0100 there are no others).\<close>

definition is_digit :: "char \<Rightarrow> bool" where
  "is_digit c = (let n = (of_char c :: nat) in 48 \<le> n \<and> n \<le> 57)"

text \<open>
  \<^verbatim>\<open>\w\<close>: what \<^verbatim>\<open>str.isalnum\<close> accepts, and the underscore. In the upper half these are
  the two ordinal indicators and the micro sign, the superscript digits and the three
  fractions, and the letters from U+00C0 on, without the multiplication and the division
  sign.
\<close>

definition is_word :: "char \<Rightarrow> bool" where
  "is_word c = (let n = (of_char c :: nat) in
     (48 \<le> n \<and> n \<le> 57) \<or> (65 \<le> n \<and> n \<le> 90) \<or> n = 95 \<or> (97 \<le> n \<and> n \<le> 122)
     \<or> n = 170 \<or> n = 178 \<or> n = 179 \<or> n = 181 \<or> n = 185 \<or> n = 186
     \<or> (188 \<le> n \<and> n \<le> 190)
     \<or> (192 \<le> n \<and> n \<le> 214) \<or> (216 \<le> n \<and> n \<le> 246) \<or> (248 \<le> n \<and> n \<le> 255))"

text \<open>The dot: every character but the line feed.\<close>

definition is_any :: "char \<Rightarrow> bool" where
  "is_any c = ((of_char c :: nat) \<noteq> 10)"

definition strip :: "string \<Rightarrow> string" where
  "strip s = rev (dropWhile is_space (rev (dropWhile is_space s)))"

subsection \<open>A backtracking matcher for the regular expressions of the parser\<close>

text \<open>
  The two patterns use literals, greedy and lazy repetitions of one character class, and
  groups without nesting. The matcher returns every way a pattern matches a prefix of the
  text, in the order in which a backtracking engine tries them: a greedy repetition
  offers its longest run first, a lazy one its shortest. The head of that list is the
  match Python's \<^verbatim>\<open>re\<close> reports.
\<close>

datatype atom =
    Lit string
  | Star "char \<Rightarrow> bool"
  | Plus "char \<Rightarrow> bool"
  | PlusLazy "char \<Rightarrow> bool"

datatype item = Plain atom | Group "atom list"

text \<open>The remainders of the text after one atom, in the engine's order.\<close>

fun match_atom :: "atom \<Rightarrow> string \<Rightarrow> string list" where
  "match_atom (Lit t) s = (if take (length t) s = t then [drop (length t) s] else [])"
| "match_atom (Star c) s = map (\<lambda>k. drop k s) (rev [0..<Suc (length (takeWhile c s))])"
| "match_atom (Plus c) s = map (\<lambda>k. drop k s) (rev [1..<Suc (length (takeWhile c s))])"
| "match_atom (PlusLazy c) s = map (\<lambda>k. drop k s) [1..<Suc (length (takeWhile c s))]"

fun match_atoms :: "atom list \<Rightarrow> string \<Rightarrow> string list" where
  "match_atoms [] s = [s]"
| "match_atoms (a # as) s = concat (map (match_atoms as) (match_atom a s))"

text \<open>One item: the groups it captures and the remainder. A group captures what it consumed.\<close>

fun match_item :: "item \<Rightarrow> string \<Rightarrow> (string list \<times> string) list" where
  "match_item (Plain a) s = map (\<lambda>r. ([], r)) (match_atom a s)"
| "match_item (Group as) s =
     map (\<lambda>r. ([take (length s - length r) s], r)) (match_atoms as s)"

fun match_items :: "item list \<Rightarrow> string \<Rightarrow> (string list \<times> string) list" where
  "match_items [] s = [([], s)]"
| "match_items (i # is) s =
     concat (map (\<lambda>(g, r). map (\<lambda>(g', r'). (g @ g', r')) (match_items is r)) (match_item i s))"

text \<open>\<^verbatim>\<open>pattern.match(line)\<close>: the groups of the first match at the start of the line.\<close>

definition rx_match :: "item list \<Rightarrow> string \<Rightarrow> string list option" where
  "rx_match p s = (case match_items p s of [] \<Rightarrow> None | (g, r) # _ \<Rightarrow> Some g)"

text \<open>\<^verbatim>\<open>pattern.search(line)\<close>, as a truth value: a match at some position of the line.\<close>

fun rx_search :: "item list \<Rightarrow> string \<Rightarrow> bool" where
  "rx_search p [] = (case rx_match p [] of Some _ \<Rightarrow> True | None \<Rightarrow> False)"
| "rx_search p (c # s) = (case rx_match p (c # s) of Some _ \<Rightarrow> True | None \<Rightarrow> rx_search p s)"

text \<open>
  \<^verbatim>\<open>r"^\s*\d+:\d+\s+Kill:\s+(\d+)\s+(\d+)\s+(\d+):\s+(.+?)\s+killed\s+(.+?)\s+by\s+(MOD_\w+)"\<close>
\<close>

definition kill_pattern :: "item list" where
  "kill_pattern =
    [Plain (Star is_space), Plain (Plus is_digit), Plain (Lit '':''), Plain (Plus is_digit),
     Plain (Plus is_space), Plain (Lit ''Kill:''), Plain (Plus is_space),
     Group [Plus is_digit], Plain (Plus is_space),
     Group [Plus is_digit], Plain (Plus is_space),
     Group [Plus is_digit], Plain (Lit '':''), Plain (Plus is_space),
     Group [PlusLazy is_any], Plain (Plus is_space), Plain (Lit ''killed''),
     Plain (Plus is_space),
     Group [PlusLazy is_any], Plain (Plus is_space), Plain (Lit ''by''),
     Plain (Plus is_space),
     Group [Lit ''MOD_'', Plus is_word]]"

text \<open>\<^verbatim>\<open>r"InitGame:"\<close>\<close>

definition init_game_pattern :: "item list" where
  "init_game_pattern = [Plain (Lit ''InitGame:'')]"

subsection \<open>\<^verbatim>\<open>str\<close> of an integer\<close>

function str_nat :: "nat \<Rightarrow> string" where
  "str_nat n = (if n < 10 then [char_of (48 + n)]
                else str_nat (n div 10) @ [char_of (48 + n mod 10)])"
  by pat_completeness auto
termination
  by (relation "measure id") auto

declare str_nat.simps [simp del]

definition str_int :: "int \<Rightarrow> string" where
  "str_int i = (if i < 0 then ''-'' @ str_nat (nat (- i)) else str_nat (nat i))"

subsection \<open>The parser object\<close>

text \<open>
  A game is the dictionary that \<^verbatim>\<open>_start_new_game\<close> builds. \<^verbatim>\<open>kills\<close> is a
  \<^verbatim>\<open>defaultdict(int)\<close>: a partial map whose missing keys read as 0 when they are updated.
  \<^verbatim>\<open>games\<close> is a Python dictionary whose order of insertion is part of the result, so it
  is an association list: \<^const>\<open>AList.update\<close> replaces the value of a key that is
  there, in place, and appends a key that is not, as an assignment to a \<^verbatim>\<open>dict\<close> does;
  \<^const>\<open>map_of\<close> reads a key.
\<close>

record game =
  total_kills :: int
  players :: "string list"
  kills :: "string \<rightharpoonup> int"

record parser =
  games :: "(string \<times> game) list"
  current_game_id :: "string option"
  game_counter :: int

datatype error = FileNotFoundError | OSError | UnicodeDecodeError | KeyError | IndexError

text \<open>\<^verbatim>\<open>__init__\<close>\<close>

definition init_parser :: parser where
  "init_parser = \<lparr>games = [], current_game_id = None, game_counter = 0\<rparr>"

text \<open>\<^verbatim>\<open>_start_new_game\<close>\<close>

definition start_new_game :: "parser \<Rightarrow> parser" where
  "start_new_game p =
    (let c = game_counter p + 1;
         gid = ''game_'' @ str_int c
     in p\<lparr>game_counter := c,
          current_game_id := Some gid,
          games := AList.update gid \<lparr>total_kills = 0, players = [], kills = Map.empty\<rparr> (games p)\<rparr>)"

text \<open>
  \<^verbatim>\<open>_process_kill_event\<close>. The argument is the list of the groups of the match object.
  A raise leaves the parser as it is at that point, so the result pairs the outcome with
  the parser. The game is changed in place in the source: the model writes it back under
  its key.
\<close>

definition process_kill_event :: "parser \<Rightarrow> string list \<Rightarrow> (error + unit) \<times> parser" where
  "process_kill_event p m =
    (let p1 = (if current_game_id p = None then start_new_game p else p) in
     case m of
       killer_id # victim_id # weapon_id # g4 # g5 # g6 # _ \<Rightarrow>
         (let killer_name = strip g4;
              victim_name = strip g5;
              weapon = strip g6
          in case current_game_id p1 of
               None \<Rightarrow> (Inl KeyError, p1)
             | Some gid \<Rightarrow>
                (case map_of (games p1) gid of
                   None \<Rightarrow> (Inl KeyError, p1)
                 | Some current_game \<Rightarrow>
                    (let g1 = current_game\<lparr>total_kills := total_kills current_game + 1\<rparr>;
                         g2 = (if killer_name = ''<world>''
                               then (if victim_name \<noteq> ''<world>''
                                     then g1\<lparr>kills := (kills g1)(victim_name \<mapsto>
                                            (case kills g1 victim_name of None \<Rightarrow> 0 | Some v \<Rightarrow> v) - 1)\<rparr>
                                     else g1)
                               else g1\<lparr>kills := (kills g1)(killer_name \<mapsto>
                                            (case kills g1 killer_name of None \<Rightarrow> 0 | Some v \<Rightarrow> v) + 1)\<rparr>);
                         players_set = (if killer_name \<noteq> ''<world>'' then {killer_name} else {})
                                     \<union> (if victim_name \<noteq> ''<world>'' then {victim_name} else {});
                         existing_players = set (players g2);
                         g3 = g2\<lparr>players := sorted_list_of_set (existing_players \<union> players_set)\<rparr>
                     in (Inr (), p1\<lparr>games := AList.update gid g3 (games p1)\<rparr>))))
     | _ \<Rightarrow> (Inl IndexError, p1))"

text \<open>The body of the loop of \<^verbatim>\<open>parse_log_file\<close>, for one line of the file.\<close>

definition process_line :: "parser \<Rightarrow> string \<Rightarrow> (error + unit) \<times> parser" where
  "process_line p l =
    (let line = strip l in
     if line = [] then (Inr (), p)
     else if rx_search init_game_pattern line then (Inr (), start_new_game p)
     else (case rx_match kill_pattern line of
             Some kill_match \<Rightarrow> process_kill_event p kill_match
           | None \<Rightarrow> (Inr (), p)))"

text \<open>The loop: the lines in order, until one raises.\<close>

fun process_lines :: "parser \<Rightarrow> string list \<Rightarrow> (error + unit) \<times> parser" where
  "process_lines p [] = (Inr (), p)"
| "process_lines p (l # ls) =
    (case process_line p l of
       (Inl e, p') \<Rightarrow> (Inl e, p')
     | (Inr _, p') \<Rightarrow> process_lines p' ls)"

text \<open>
  The file system, as far as \<^verbatim>\<open>parse_log_file\<close> looks at it. A path that
  \<^verbatim>\<open>os.path.exists\<close> accepts is one of three things: a file whose bytes are UTF-8, with
  the lines it decodes to; a file whose bytes are not UTF-8, with the lines that the
  iteration yields before the strict decoder of line 46 raises \<^verbatim>\<open>UnicodeDecodeError\<close>
  (none, when the offending byte is in the first block read); or something that
  \<^verbatim>\<open>open\<close> refuses (a directory, a file without read permission).
\<close>

datatype node = TextFile "string list" | Undecodable "string list" | Unreadable

type_synonym file_system = "string \<rightharpoonup> node"

text \<open>\<^verbatim>\<open>parse_log_file\<close>: the outcome (the \<^verbatim>\<open>games\<close> dictionary, or the exception) and the parser after the call.\<close>

definition parse_log_file ::
  "file_system \<Rightarrow> parser \<Rightarrow> string \<Rightarrow> (error + (string \<times> game) list) \<times> parser" where
  "parse_log_file fs p file_path =
    (case fs file_path of
       None \<Rightarrow> (Inl FileNotFoundError, p)
     | Some nd \<Rightarrow>
        (let p0 = p\<lparr>games := [], current_game_id := None, game_counter := 0\<rparr> in
         case nd of
           Unreadable \<Rightarrow> (Inl OSError, p0)
         | Undecodable file \<Rightarrow>
            (case process_lines p0 file of
               (Inl e, p') \<Rightarrow> (Inl e, p')
             | (Inr _, p') \<Rightarrow> (Inl UnicodeDecodeError, p'))
         | TextFile file \<Rightarrow>
            (case process_lines p0 file of
               (Inl e, p') \<Rightarrow> (Inl e, p')
             | (Inr _, p') \<Rightarrow> (Inr (games p'), p'))))"

subsection \<open>Vocabulary of the statements\<close>

text \<open>
  How the loop body classifies a line: a marker line opens a game, a kill line reaches
  \<^verbatim>\<open>_process_kill_event\<close>, every other line is passed over. The marker test comes
  first, so a line is never both.
\<close>

definition is_init_line :: "string \<Rightarrow> bool" where
  "is_init_line l = (strip l \<noteq> [] \<and> rx_search init_game_pattern (strip l))"

definition is_kill_line :: "string \<Rightarrow> bool" where
  "is_kill_line l =
     (strip l \<noteq> [] \<and> \<not> rx_search init_game_pattern (strip l)
      \<and> rx_match kill_pattern (strip l) \<noteq> None)"

text \<open>
  What lines 96 to 117 of \<^verbatim>\<open>_process_kill_event\<close> do to the current game, as a
  function of the two stripped names.
\<close>

definition apply_kill :: "string \<Rightarrow> string \<Rightarrow> game \<Rightarrow> game" where
  "apply_kill killer_name victim_name current_game =
    (let g1 = current_game\<lparr>total_kills := total_kills current_game + 1\<rparr>;
         g2 = (if killer_name = ''<world>''
               then (if victim_name \<noteq> ''<world>''
                     then g1\<lparr>kills := (kills g1)(victim_name \<mapsto>
                            (case kills g1 victim_name of None \<Rightarrow> 0 | Some v \<Rightarrow> v) - 1)\<rparr>
                     else g1)
               else g1\<lparr>kills := (kills g1)(killer_name \<mapsto>
                            (case kills g1 killer_name of None \<Rightarrow> 0 | Some v \<Rightarrow> v) + 1)\<rparr>);
         players_set = (if killer_name \<noteq> ''<world>'' then {killer_name} else {})
                     \<union> (if victim_name \<noteq> ''<world>'' then {victim_name} else {})
     in g2\<lparr>players := sorted_list_of_set (set (players g2) \<union> players_set)\<rparr>)"

text \<open>The current game id names a game of the dictionary.\<close>

definition current_ok :: "parser \<Rightarrow> bool" where
  "current_ok p = (case current_game_id p of None \<Rightarrow> True
                   | Some gid \<Rightarrow> gid \<in> fst ` set (games p))"

text \<open>Lines 83 and 84 of \<^verbatim>\<open>_process_kill_event\<close>: a kill without a current game opens one.\<close>

definition with_current_game :: "parser \<Rightarrow> parser" where
  "with_current_game p = (if current_game_id p = None then start_new_game p else p)"

text \<open>A change of the current game, written back under its key.\<close>

definition map_current :: "(game \<Rightarrow> game) \<Rightarrow> parser \<Rightarrow> parser" where
  "map_current f p =
    (case current_game_id p of
       None \<Rightarrow> p
     | Some gid \<Rightarrow>
        (case map_of (games p) gid of
           None \<Rightarrow> p
         | Some g \<Rightarrow> p\<lparr>games := AList.update gid (f g) (games p)\<rparr>))"

text \<open>What a line that is not a marker does to the current game.\<close>

definition line_effect :: "string \<Rightarrow> game \<Rightarrow> game" where
  "line_effect l =
    (if is_kill_line l
     then (case rx_match kill_pattern (strip l) of
             Some (killer_id # victim_id # weapon_id # g4 # g5 # g6 # _) \<Rightarrow>
               apply_kill (strip g4) (strip g5)
           | _ \<Rightarrow> id)
     else id)"

text \<open>The player names a line contributes: the two stripped names of a kill line, without \<^verbatim>\<open><world>\<close>.\<close>

definition line_names :: "string \<Rightarrow> string set" where
  "line_names l =
    (if is_kill_line l
     then (case rx_match kill_pattern (strip l) of
             Some (killer_id # victim_id # weapon_id # g4 # g5 # g6 # _) \<Rightarrow>
               {strip g4, strip g5} - {''<world>''}
           | _ \<Rightarrow> {})
     else {})"

text \<open>The keys of the dictionary are \<^verbatim>\<open>game_1\<close> to \<^verbatim>\<open>game_n\<close>, in this order, for the counter \<open>n\<close>.\<close>

definition keys_inv :: "parser \<Rightarrow> bool" where
  "keys_inv p = (0 \<le> game_counter p
     \<and> map fst (games p) = map (\<lambda>i. ''game_'' @ str_int i) [1..game_counter p]
     \<and> current_ok p)"

subsection \<open>Example logs\<close>

text \<open>The example of section 8 of the specification.\<close>

definition example_log :: "string list" where
  "example_log =
    [''0:00 InitGame: ...'',
     ''0:05 Kill: 1 2 3: Alice killed Bob by MOD_ROCKET'',
     ''0:10 Kill: 3 2 4: <world> killed Bob by MOD_FALLING'',
     ''0:15 InitGame: ...'',
     ''0:20 Kill: 5 6 7: Carol killed Dave by MOD_SHOTGUN'']"

definition example_fs :: file_system where
  "example_fs = [''log.txt'' \<mapsto> TextFile example_log]"

text \<open>Two markers, an empty line and a line that only looks like a kill.\<close>

definition markers_log :: "string list" where
  "markers_log = [''0:00 InitGame: a'', [], ''0:15 InitGame: b'', ''12:00 Kill: nonsense'']"

section \<open>Properties\<close>

subsection \<open>Resetting, and a missing file\<close>

lemma reset_parser:
  "(p::parser)\<lparr>games := [], current_game_id := None, game_counter := 0\<rparr> = init_parser"
  by (cases p) (simp add: init_parser_def)

lemma example_fs_log: "example_fs ''log.txt'' = Some (TextFile example_log)"
  by (simp add: example_fs_def)

lemma strip_Alice: "strip ''Alice'' = ''Alice''"
  by code_simp

lemma strip_Bob: "strip ''Bob'' = ''Bob''"
  by code_simp

lemma strip_world: "strip ''<world>'' = ''<world>''"
  by code_simp

text \<open>
  C6. A path that does not exist makes \<^verbatim>\<open>parse_log_file\<close> raise
  \<^verbatim>\<open>FileNotFoundError\<close>: there is no result, and the parser is the one before the call
  (the raise comes before the reset and before any line is read).
\<close>

theorem parse_missing_file:
  "fs file_path = None \<Longrightarrow> parse_log_file fs p file_path = (Inl FileNotFoundError, p)"
  by (simp add: parse_log_file_def)

theorem parse_missing_file_witness:
  "(Map.empty :: file_system) ''log.txt'' = None
   \<and> parse_log_file Map.empty init_parser ''log.txt'' = (Inl FileNotFoundError, init_parser)"
  using parse_missing_file [of Map.empty "''log.txt''" init_parser] by simp

text \<open>
  C8, as amended. The outcome of a second call does not depend on the first: whatever
  the parser went through before (any parser \<open>p\<close>, any earlier call on \<open>L1\<close>), parsing
  \<open>L2\<close> gives the outcome that a fresh instance gives. When \<open>L2\<close> exists the three fields
  are reset before anything is read, and the call leaves the parser that a fresh instance
  is left with: nothing of the earlier run remains. When \<open>L2\<close> does not exist the call
  raises before the reset (lines 38 and 39 come before lines 42 to 44), and the parser
  keeps the state of the earlier run.
\<close>

theorem parse_independent_of_earlier_run:
  "fst (parse_log_file fs2 (snd (parse_log_file fs1 p L1)) L2)
     = fst (parse_log_file fs2 init_parser L2)
   \<and> (fs2 L2 \<noteq> None \<longrightarrow>
        parse_log_file fs2 (snd (parse_log_file fs1 p L1)) L2 = parse_log_file fs2 init_parser L2)
   \<and> (fs2 L2 = None \<longrightarrow>
        snd (parse_log_file fs2 (snd (parse_log_file fs1 p L1)) L2) = snd (parse_log_file fs1 p L1))"
  by (simp add: parse_log_file_def reset_parser split: option.splits)

theorem parse_independent_of_earlier_run_witness:
  "example_fs ''log.txt'' \<noteq> None
   \<and> fst (parse_log_file example_fs
            (snd (parse_log_file [''old.txt'' \<mapsto> TextFile markers_log] init_parser ''old.txt''))
            ''log.txt'')
       = fst (parse_log_file example_fs init_parser ''log.txt'')
   \<and> parse_log_file example_fs
        (snd (parse_log_file [''old.txt'' \<mapsto> TextFile markers_log] init_parser ''old.txt''))
        ''log.txt''
       = parse_log_file example_fs init_parser ''log.txt''
   \<and> example_fs ''missing.txt'' = None
   \<and> snd (parse_log_file example_fs
            (snd (parse_log_file [''old.txt'' \<mapsto> TextFile markers_log] init_parser ''old.txt''))
            ''missing.txt'')
       = snd (parse_log_file [''old.txt'' \<mapsto> TextFile markers_log] init_parser ''old.txt'')"
proof -
  have h: "example_fs ''log.txt'' \<noteq> None" by (simp add: example_fs_log)
  have m: "example_fs ''missing.txt'' = None" by (simp add: example_fs_def)
  note c = parse_independent_of_earlier_run [where ?fs2.0 = example_fs and ?L2.0 = "''log.txt''"
      and ?fs1.0 = "[''old.txt'' \<mapsto> TextFile markers_log]" and ?L1.0 = "''old.txt''"
      and p = init_parser]
  note d = parse_independent_of_earlier_run [where ?fs2.0 = example_fs
      and ?L2.0 = "''missing.txt''"
      and ?fs1.0 = "[''old.txt'' \<mapsto> TextFile markers_log]" and ?L1.0 = "''old.txt''"
      and p = init_parser]
  show ?thesis
    by (intro conjI h m c [THEN conjunct1] c [THEN conjunct2, THEN conjunct1, THEN mp, OF h]
        d [THEN conjunct2, THEN conjunct2, THEN mp, OF m])
qed

subsection \<open>Decimal numerals and the matcher\<close>

lemma str_nat_nonempty: "str_nat n \<noteq> []"
  by (subst str_nat.simps) simp

lemma digit_char_inj:
  assumes "a < 10" "b < 10" "(char_of (48 + a) :: char) = char_of (48 + b)"
  shows "a = (b::nat)"
proof -
  have "(of_char (char_of (48 + a) :: char) :: nat) = of_char (char_of (48 + b) :: char)"
    using assms(3) by simp
  then have "(48 + a) mod 256 = (48 + b) mod 256"
    by (simp only: of_char_of)
  with assms(1,2) show ?thesis by simp
qed

lemma str_nat_inj: "str_nat n = str_nat m \<Longrightarrow> n = m"
proof (induction n arbitrary: m rule: str_nat.induct)
  case (1 n)
  show ?case
  proof (cases "n < 10")
    case n: True
    show ?thesis
    proof (cases "m < 10")
      case True
      with n "1.prems" show ?thesis
        by (simp add: str_nat.simps [of n] str_nat.simps [of m] digit_char_inj)
    next
      case False
      with n "1.prems" str_nat_nonempty [of "m div 10"] show ?thesis
        by (simp add: str_nat.simps [of n] str_nat.simps [of m])
    qed
  next
    case n: False
    show ?thesis
    proof (cases "m < 10")
      case True
      with n "1.prems" str_nat_nonempty [of "n div 10"] show ?thesis
        by (simp add: str_nat.simps [of n] str_nat.simps [of m])
    next
      case False
      with n "1.prems" have e: "str_nat (n div 10) = str_nat (m div 10)"
        and d: "(char_of (48 + n mod 10) :: char) = char_of (48 + m mod 10)"
        by (simp_all add: str_nat.simps [of n] str_nat.simps [of m])
      from "1.IH" [OF n e] have "n div 10 = m div 10" .
      moreover from d have "n mod 10 = m mod 10"
        by (intro digit_char_inj) simp_all
      ultimately show ?thesis
        by (metis div_mult_mod_eq)
    qed
  qed
qed

lemma game_id_inj:
  "0 \<le> i \<Longrightarrow> 0 \<le> j \<Longrightarrow> ''game_'' @ str_int i = ''game_'' @ str_int j \<Longrightarrow> i = j"
  using str_nat_inj [of "nat i" "nat j"] by (simp add: str_int_def)

lemma game_id_fresh:
  "0 \<le> c \<Longrightarrow> ''game_'' @ str_int (c + 1) \<notin> (\<lambda>i. ''game_'' @ str_int i) ` set [1..c]"
proof
  assume c: "0 \<le> c" and "''game_'' @ str_int (c + 1) \<in> (\<lambda>i. ''game_'' @ str_int i) ` set [1..c]"
  then obtain i where i: "1 \<le> i" "i \<le> c" and "''game_'' @ str_int (c + 1) = ''game_'' @ str_int i"
    by auto
  with c game_id_inj [of "c + 1" i] show False by simp
qed

lemma update_fresh: "k \<notin> fst ` set al \<Longrightarrow> AList.update k v al = al @ [(k, v)]"
  by (induction al) auto

lemma match_item_groups:
  "(g, r) \<in> set (match_item i s) \<Longrightarrow> length g = (case i of Plain _ \<Rightarrow> 0 | Group _ \<Rightarrow> 1)"
  by (cases i) auto

lemma match_items_groups:
  "(g, r) \<in> set (match_items is s)
   \<Longrightarrow> length g = length (filter (\<lambda>i. case i of Plain _ \<Rightarrow> False | Group _ \<Rightarrow> True) is)"
proof (induction "is" arbitrary: g r s)
  case Nil
  then show ?case by simp
next
  case (Cons i "is")
  from Cons.prems obtain g1 r1 g2 where a: "(g1, r1) \<in> set (match_item i s)"
    and b: "(g2, r) \<in> set (match_items is r1)" and g: "g = g1 @ g2"
    by auto
  from match_item_groups [OF a] Cons.IH [OF b] g show ?case
    by (cases i) simp_all
qed

lemma kill_match_groups:
  assumes "rx_match kill_pattern s = Some m"
  shows "\<exists>killer_id victim_id weapon_id g4 g5 g6. m = [killer_id, victim_id, weapon_id, g4, g5, g6]"
proof -
  from assms obtain r where "(m, r) \<in> set (match_items kill_pattern s)"
    by (auto simp: rx_match_def split: list.splits)
  from match_items_groups [OF this] have "length m = 6"
    by (simp add: kill_pattern_def)
  then show ?thesis
    by (auto simp: length_Suc_conv eval_nat_numeral)
qed

subsection \<open>The steps of the parser\<close>

lemma start_new_game_simps [simp]:
  "game_counter (start_new_game p) = game_counter p + 1"
  "current_game_id (start_new_game p) = Some (''game_'' @ str_int (game_counter p + 1))"
  "games (start_new_game p) =
     AList.update (''game_'' @ str_int (game_counter p + 1))
       \<lparr>total_kills = 0, players = [], kills = Map.empty\<rparr> (games p)"
  by (simp_all add: start_new_game_def Let_def)

lemma current_ok_start_new_game [simp]: "current_ok (start_new_game p)"
  by (simp add: current_ok_def AList.dom_update)

lemma current_ok_with_current_game: "current_ok p \<Longrightarrow> current_ok (with_current_game p)"
  by (simp add: with_current_game_def)

lemma with_current_game_has_current: "current_game_id (with_current_game p) \<noteq> None"
  by (simp add: with_current_game_def)

lemma current_ok_lookup:
  assumes "current_ok p" "current_game_id p = Some gid"
  shows "\<exists>g. map_of (games p) gid = Some g"
proof -
  from assms have "gid \<in> fst ` set (games p)" by (simp add: current_ok_def)
  then have "gid \<in> dom (map_of (games p))" by (simp add: dom_map_of_conv_image_fst)
  then show ?thesis by auto
qed

lemma process_kill_event_eq:
  assumes "p1 = (if current_game_id p = None then start_new_game p else p)"
    and "current_game_id p1 = Some gid" and "map_of (games p1) gid = Some g"
  shows "process_kill_event p (killer_id # victim_id # weapon_id # g4 # g5 # g6 # rest)
         = (Inr (), p1\<lparr>games := AList.update gid (apply_kill (strip g4) (strip g5) g) (games p1)\<rparr>)"
  using assms(2,3) unfolding process_kill_event_def assms(1) [symmetric]
  by (simp add: apply_kill_def Let_def)

lemma process_kill_event_map_current:
  assumes "current_ok p"
  shows "process_kill_event p (killer_id # victim_id # weapon_id # g4 # g5 # g6 # rest)
         = (Inr (), map_current (apply_kill (strip g4) (strip g5)) (with_current_game p))"
proof -
  obtain gid where c: "current_game_id (with_current_game p) = Some gid"
    using with_current_game_has_current [of p] by auto
  from current_ok_lookup [OF current_ok_with_current_game [OF assms] c]
  obtain g where g: "map_of (games (with_current_game p)) gid = Some g" ..
  from c g process_kill_event_eq [OF with_current_game_def c g] show ?thesis
    by (simp add: map_current_def)
qed

lemma current_ok_map_current: "current_ok p \<Longrightarrow> current_ok (map_current f p)"
  by (auto simp: current_ok_def map_current_def AList.dom_update split: option.splits)

lemma current_map_current [simp]: "current_game_id (map_current f p) = current_game_id p"
  by (simp add: map_current_def split: option.splits)

lemma counter_map_current [simp]: "game_counter (map_current f p) = game_counter p"
  by (simp add: map_current_def split: option.splits)

lemma keys_map_current [simp]: "map fst (games (map_current f p)) = map fst (games p)"
  by (auto simp: map_current_def AList.update_keys  split: option.splits
      dest!: map_of_SomeD intro: rev_image_eqI)

lemma map_current_comp: "map_current f (map_current h p) = map_current (f \<circ> h) p"
  by (simp add: map_current_def AList.update_conv' split: option.splits)

lemma map_current_id: "map_current id p = p"
  by (simp add: map_current_def AList.update_triv split: option.splits)

text \<open>The three cases of the loop body.\<close>

lemma process_line_skip:
  "\<not> is_init_line l \<Longrightarrow> \<not> is_kill_line l \<Longrightarrow> process_line p l = (Inr (), p)"
  by (auto simp: process_line_def is_init_line_def is_kill_line_def Let_def split: option.splits)

lemma process_line_init:
  "is_init_line l \<Longrightarrow> process_line p l = (Inr (), start_new_game p)"
  by (simp add: process_line_def is_init_line_def Let_def)

lemma process_line_kill:
  assumes "is_kill_line l" "current_ok p"
  shows "process_line p l = (Inr (), map_current (line_effect l) (with_current_game p))"
proof -
  from assms(1) obtain m where m: "rx_match kill_pattern (strip l) = Some m"
    by (auto simp: is_kill_line_def)
  from kill_match_groups [OF m] obtain killer_id victim_id weapon_id g4 g5 g6
    where "m = [killer_id, victim_id, weapon_id, g4, g5, g6]" by blast
  with m assms show ?thesis
    by (simp add: process_line_def is_kill_line_def line_effect_def Let_def
        process_kill_event_map_current)
qed

lemma line_effect_other: "\<not> is_kill_line l \<Longrightarrow> line_effect l = id"
  by (simp add: line_effect_def)

lemma process_line_cases:
  assumes "current_ok p"
  shows "process_line p l =
     (Inr (), if is_init_line l then start_new_game p
              else if is_kill_line l then map_current (line_effect l) (with_current_game p)
              else p)"
  using assms process_line_skip process_line_init process_line_kill by simp

lemma process_line_ok:
  assumes "current_ok p"
  shows "fst (process_line p l) = Inr () \<and> current_ok (snd (process_line p l))"
  using assms
  by (simp add: process_line_cases current_ok_map_current current_ok_with_current_game)

lemma process_lines_ok:
  "current_ok p \<Longrightarrow> fst (process_lines p ls) = Inr () \<and> current_ok (snd (process_lines p ls))"
proof (induction ls arbitrary: p)
  case Nil
  then show ?case by simp
next
  case (Cons l ls)
  from process_line_ok [OF Cons.prems, of l]
  obtain p' where p': "process_line p l = (Inr (), p')" "current_ok p'"
    by (cases "process_line p l") auto
  with Cons.IH [OF p'(2)] show ?case by simp
qed

lemma process_lines_append:
  "process_lines p (xs @ ys) =
    (case process_lines p xs of (Inl e, p') \<Rightarrow> (Inl e, p') | (Inr _, p') \<Rightarrow> process_lines p' ys)"
  by (induction xs arbitrary: p) (auto split: prod.splits sum.splits)

lemma process_lines_append_ok:
  assumes "current_ok p"
  shows "process_lines p (xs @ ys) = process_lines (snd (process_lines p xs)) ys"
  using process_lines_ok [OF assms, of xs]
  by (cases "process_lines p xs") (auto simp: process_lines_append)

lemma current_ok_init [simp]: "current_ok init_parser"
  by (simp add: current_ok_def init_parser_def)

lemma parse_text_file:
  assumes "fs file_path = Some (TextFile content)"
  shows "parse_log_file fs p file_path =
          (Inr (games (snd (process_lines init_parser content))), snd (process_lines init_parser content))"
  using assms process_lines_ok [OF current_ok_init, of content]
  by (cases "process_lines init_parser content")
     (auto simp: parse_log_file_def reset_parser)

lemma parse_undecodable_file:
  assumes "fs file_path = Some (Undecodable content)"
  shows "parse_log_file fs p file_path =
          (Inl UnicodeDecodeError, snd (process_lines init_parser content))"
  using assms process_lines_ok [OF current_ok_init, of content]
  by (cases "process_lines init_parser content")
     (auto simp: parse_log_file_def reset_parser)

subsection \<open>The keys of the games\<close>

lemma keys_inv_init [simp]: "keys_inv init_parser"
  by (simp add: keys_inv_def init_parser_def current_ok_def)

lemma keys_start_new_game:
  assumes "0 \<le> game_counter p"
    and "map fst (games p) = map (\<lambda>i. ''game_'' @ str_int i) [1..game_counter p]"
  shows "map fst (games (start_new_game p))
         = map (\<lambda>i. ''game_'' @ str_int i) [1..game_counter p + 1]"
proof -
  have "''game_'' @ str_int (game_counter p + 1) \<notin> set (map fst (games p))"
    using game_id_fresh [OF assms(1)] by (simp add: assms(2))
  then show ?thesis
    using assms by (simp add: AList.update_keys upto_rec2 [of 1 "game_counter p + 1"])
qed

lemma keys_inv_start_new_game: "keys_inv p \<Longrightarrow> keys_inv (start_new_game p)"
  unfolding keys_inv_def using keys_start_new_game [of p] by simp

lemma keys_inv_with_current_game: "keys_inv p \<Longrightarrow> keys_inv (with_current_game p)"
  by (simp add: with_current_game_def keys_inv_start_new_game)

lemma keys_inv_map_current: "keys_inv p \<Longrightarrow> keys_inv (map_current f p)"
  by (simp add: keys_inv_def current_ok_map_current)

lemma keys_inv_process_line:
  assumes "keys_inv p"
  shows "keys_inv (snd (process_line p l)) \<and> game_counter p \<le> game_counter (snd (process_line p l))"
proof -
  from assms have "current_ok p" by (simp add: keys_inv_def)
  from process_line_cases [OF this, of l] assms show ?thesis
    by (simp add: keys_inv_start_new_game keys_inv_map_current keys_inv_with_current_game
        with_current_game_def)
qed

lemma keys_inv_process_lines:
  "keys_inv p \<Longrightarrow> keys_inv (snd (process_lines p ls))
     \<and> game_counter p \<le> game_counter (snd (process_lines p ls))"
proof (induction ls arbitrary: p)
  case Nil
  then show ?case by simp
next
  case (Cons l ls)
  from Cons.prems have ok: "current_ok p" by (simp add: keys_inv_def)
  from process_line_ok [OF ok, of l] obtain p' where p': "process_line p l = (Inr (), p')"
    by (cases "process_line p l") auto
  from keys_inv_process_line [OF Cons.prems, of l] p'
  have "keys_inv p'" "game_counter p \<le> game_counter p'" by simp_all
  with Cons.IH [of p'] p' show ?case by simp
qed

lemma game_ids_prefix:
  assumes "0 \<le> c" "c \<le> d"
  shows "prefix (map (\<lambda>i. ''game_'' @ str_int i) [1..c]) (map (\<lambda>i. ''game_'' @ str_int i) [1..d])"
proof -
  have "[1..d] = [1..c] @ [c + 1..d]"
  proof (cases "c = 0")
    case True
    then show ?thesis by simp
  next
    case False
    with assms show ?thesis using upto_split2 [of 1 c d] by simp
  qed
  then show ?thesis by simp
qed

text \<open>
  C1, as amended. The keys of the result of a parse are exactly \<^verbatim>\<open>game_1\<close>,
  \<^verbatim>\<open>game_2\<close>, ... up to the number of games, in the order in which the games were opened
  (the source writes \<^verbatim>\<open>f"game_{self.game_counter}"\<close>, not \<^verbatim>\<open>match_\<close>), and an id, once
  given, stays: the keys after any number of lines of the log are a prefix of the keys of
  the result.
\<close>

theorem game_ids_sequential:
  assumes "fs file_path = Some (TextFile content)"
  shows "\<exists>gs. fst (parse_log_file fs p file_path) = Inr gs
     \<and> map fst gs = map (\<lambda>i. ''game_'' @ str_int i) [1..int (length gs)]
     \<and> (\<forall>n. prefix (map fst (games (snd (process_lines init_parser (take n content)))))
                    (map fst gs))"
proof -
  let ?q = "snd (process_lines init_parser content)"
  have inv: "keys_inv ?q" using keys_inv_process_lines [OF keys_inv_init] by simp
  then have keys: "map fst (games ?q) = map (\<lambda>i. ''game_'' @ str_int i) [1..game_counter ?q]"
    and c: "0 \<le> game_counter ?q" by (simp_all add: keys_inv_def)
  from keys have "length (games ?q) = length [1..game_counter ?q]"
    by (metis length_map)
  with c have len: "int (length (games ?q)) = game_counter ?q" by simp
  have pre: "prefix (map fst (games (snd (process_lines init_parser (take n content)))))
                    (map fst (games ?q))" for n
  proof -
    let ?r = "snd (process_lines init_parser (take n content))"
    have r: "keys_inv ?r" using keys_inv_process_lines [OF keys_inv_init] by simp
    have "process_lines init_parser (take n content @ drop n content)
          = process_lines ?r (drop n content)"
      by (rule process_lines_append_ok) simp
    then have "?q = snd (process_lines ?r (drop n content))" by simp
    with keys_inv_process_lines [OF r, of "drop n content"]
    have "game_counter ?r \<le> game_counter ?q" by simp
    moreover from r have "0 \<le> game_counter ?r"
      and "map fst (games ?r) = map (\<lambda>i. ''game_'' @ str_int i) [1..game_counter ?r]"
      by (simp_all add: keys_inv_def)
    ultimately show ?thesis using game_ids_prefix keys by simp
  qed
  show ?thesis
    using parse_text_file [of fs file_path content p] assms keys len pre by simp
qed

theorem game_ids_sequential_witness:
  "example_fs ''log.txt'' = Some (TextFile example_log)
   \<and> (\<exists>gs. fst (parse_log_file example_fs init_parser ''log.txt'') = Inr gs
     \<and> map fst gs = map (\<lambda>i. ''game_'' @ str_int i) [1..int (length gs)]
     \<and> (\<forall>n. prefix (map fst (games (snd (process_lines init_parser (take n example_log)))))
                    (map fst gs)))"
proof -
  note c = game_ids_sequential [where fs = example_fs and p = init_parser, OF example_fs_log]
  show ?thesis by (intro conjI example_fs_log c)
qed

text \<open>
  C1 as stated fails on the example log: its two games are filed under \<^verbatim>\<open>game_1\<close> and
  \<^verbatim>\<open>game_2\<close>, not under \<^verbatim>\<open>match_1\<close> and \<^verbatim>\<open>match_2\<close>.
\<close>

theorem match_ids_counterexample:
  "fst (parse_log_file example_fs init_parser ''log.txt'')
     = Inr (games (snd (parse_log_file example_fs init_parser ''log.txt'')))
   \<and> map fst (games (snd (parse_log_file example_fs init_parser ''log.txt''))) = [''game_1'', ''game_2'']
   \<and> [''game_1'', ''game_2''] \<noteq> [''match_1'', ''match_2'']"
proof -
  have "map fst (games (snd (process_lines init_parser example_log))) = [''game_1'', ''game_2'']"
    by code_simp
  then show ?thesis
    by (simp add: parse_text_file [of example_fs "''log.txt''" example_log init_parser] example_fs_log)
qed

text \<open>
  C8 as stated fails when the second path does not exist: after a parse of the example
  log, a call on a missing path raises and leaves the two games, the counter 2 and the
  current id of the first run in the parser, where a fresh instance has none.
\<close>

theorem reset_counterexample:
  "example_fs ''missing.txt'' = None
   \<and> fst (parse_log_file example_fs (snd (parse_log_file example_fs init_parser ''log.txt''))
          ''missing.txt'') = Inl FileNotFoundError
   \<and> map fst (games (snd (parse_log_file example_fs
          (snd (parse_log_file example_fs init_parser ''log.txt'')) ''missing.txt'')))
       = [''game_1'', ''game_2'']
   \<and> game_counter (snd (parse_log_file example_fs
          (snd (parse_log_file example_fs init_parser ''log.txt'')) ''missing.txt'')) = 2
   \<and> current_game_id (snd (parse_log_file example_fs
          (snd (parse_log_file example_fs init_parser ''log.txt'')) ''missing.txt'')) = Some ''game_2''
   \<and> map fst (games (snd (parse_log_file example_fs init_parser ''missing.txt''))) = []
   \<and> game_counter (snd (parse_log_file example_fs init_parser ''missing.txt'')) = 0
   \<and> current_game_id (snd (parse_log_file example_fs init_parser ''missing.txt'')) = None"
proof -
  have m: "example_fs ''missing.txt'' = None" by (simp add: example_fs_def)
  have r: "parse_log_file example_fs q ''missing.txt'' = (Inl FileNotFoundError, q)" for q
    by (simp add: parse_log_file_def m)
  have k: "map fst (games (snd (process_lines init_parser example_log))) = [''game_1'', ''game_2'']"
    by code_simp
  have c: "game_counter (snd (process_lines init_parser example_log)) = 2"
    by code_simp
  have i: "current_game_id (snd (process_lines init_parser example_log)) = Some ''game_2''"
    by code_simp
  have f: "games init_parser = []" "game_counter init_parser = 0"
    "current_game_id init_parser = None"
    by (simp_all add: init_parser_def)
  show ?thesis
    by (simp add: m r k c i f
        parse_text_file [of example_fs "''log.txt''" example_log init_parser] example_fs_log)
qed

subsection \<open>apply_kill\<close>

lemma apply_kill_total [simp]: "total_kills (apply_kill A B g) = total_kills g + 1"
  by (simp add: apply_kill_def Let_def)

lemma apply_kill_players:
  "players (apply_kill A B g) = sorted_list_of_set (set (players g) \<union> ({A, B} - {''<world>''}))"
proof -
  have "(if A \<noteq> ''<world>'' then {A} else {}) \<union> (if B \<noteq> ''<world>'' then {B} else {})
        = {A, B} - {''<world>''}" by auto
  then show ?thesis by (simp add: apply_kill_def Let_def)
qed

lemma apply_kill_players_set [simp]:
  "set (players (apply_kill A B g)) = set (players g) \<union> ({A, B} - {''<world>''})"
  by (simp add: apply_kill_players)

lemma apply_kill_players_sorted [simp]:
  "sorted (players (apply_kill A B g))" "distinct (players (apply_kill A B g))"
  by (simp_all add: apply_kill_players)

lemma apply_kill_kills:
  "kills (apply_kill A B g) =
     (if A = ''<world>''
      then (if B \<noteq> ''<world>''
            then (kills g)(B \<mapsto> (case kills g B of None \<Rightarrow> 0 | Some v \<Rightarrow> v) - 1)
            else kills g)
      else (kills g)(A \<mapsto> (case kills g A of None \<Rightarrow> 0 | Some v \<Rightarrow> v) + 1))"
  by (simp add: apply_kill_def Let_def)

lemma apply_kill_commute:
  "apply_kill A B (apply_kill C D g) = apply_kill C D (apply_kill A B g)"
proof (rule game.equality)
  show "kills (apply_kill A B (apply_kill C D g)) = kills (apply_kill C D (apply_kill A B g))"
    by (auto simp: apply_kill_kills fun_eq_iff)
  show "players (apply_kill A B (apply_kill C D g)) = players (apply_kill C D (apply_kill A B g))"
    by (simp add: apply_kill_players Un_ac)
  show "game.more (apply_kill A B (apply_kill C D g)) = game.more (apply_kill C D (apply_kill A B g))"
    by simp
qed simp

lemma line_effect_cases:
  "line_effect l = id \<or> (\<exists>A B. line_effect l = apply_kill A B)"
  by (auto simp: line_effect_def split: option.splits list.splits)

lemma line_effect_commute: "line_effect x \<circ> line_effect y = line_effect y \<circ> line_effect x"
  using line_effect_cases [of x] line_effect_cases [of y]
  by (auto simp: fun_eq_iff apply_kill_commute)

subsection \<open>Properties of every game of the dictionary\<close>

lemma set_update_subset: "set (AList.update k v al) \<subseteq> insert (k, v) (set al)"
  by (induction al) auto

lemma games_start_new_game:
  assumes "\<forall>(k, g) \<in> set (games p). Q g" "Q \<lparr>total_kills = 0, players = [], kills = Map.empty\<rparr>"
  shows "\<forall>(k, g) \<in> set (games (start_new_game p)). Q g"
  using assms set_update_subset [of "''game_'' @ str_int (game_counter p + 1)"
      "\<lparr>total_kills = 0, players = [], kills = Map.empty\<rparr>" "games p"]
  by auto

lemma games_map_current:
  assumes "\<forall>(k, g) \<in> set (games p). Q g" "\<And>g. Q g \<Longrightarrow> Q (f g)"
  shows "\<forall>(k, g) \<in> set (games (map_current f p)). Q g"
proof (cases "current_game_id p")
  case None
  with assms show ?thesis by (simp add: map_current_def)
next
  case (Some gid)
  show ?thesis
  proof (cases "map_of (games p) gid")
    case None
    with Some assms show ?thesis by (simp add: map_current_def)
  next
    case (Some g)
    then have "(gid, g) \<in> set (games p)" by (rule map_of_SomeD)
    with assms have "Q (f g)" by auto
    with assms(1) set_update_subset [of gid "f g" "games p"] Some \<open>current_game_id p = Some gid\<close>
    show ?thesis by (auto simp: map_current_def)
  qed
qed

lemma games_process_line:
  assumes "current_ok p" "\<forall>(k, g) \<in> set (games p). Q g"
    and "Q \<lparr>total_kills = 0, players = [], kills = Map.empty\<rparr>"
    and "\<And>A B g. Q g \<Longrightarrow> Q (apply_kill A B g)"
  shows "\<forall>(k, g) \<in> set (games (snd (process_line p l))). Q g"
proof -
  have eff: "Q (line_effect l g)" if "Q g" for g
    using line_effect_cases [of l] that assms(4) by auto
  have "\<forall>(k, g) \<in> set (games (with_current_game p)). Q g"
    using assms(2,3) games_start_new_game [of p Q] by (simp add: with_current_game_def)
  from games_map_current [of "with_current_game p" Q "line_effect l", OF this eff]
    games_start_new_game [of p Q] assms(2,3)
  show ?thesis
    by (simp add: process_line_cases [OF assms(1)])
qed

lemma games_process_lines:
  assumes "Q \<lparr>total_kills = 0, players = [], kills = Map.empty\<rparr>"
    and "\<And>A B g. Q g \<Longrightarrow> Q (apply_kill A B g)"
  shows "current_ok p \<Longrightarrow> \<forall>(k, g) \<in> set (games p). Q g
         \<Longrightarrow> \<forall>(k, g) \<in> set (games (snd (process_lines p ls))). Q g"
proof (induction ls arbitrary: p)
  case Nil
  then show ?case by simp
next
  case (Cons l ls)
  from process_line_ok [OF Cons.prems(1), of l] obtain p' where
    p': "process_line p l = (Inr (), p')" "current_ok p'"
    by (cases "process_line p l") auto
  from games_process_line [of p Q l, OF Cons.prems assms] p'
  have "\<forall>(k, g) \<in> set (games p'). Q g" by simp
  from Cons.IH [OF p'(2) this] p' show ?case by simp
qed

lemma world_not_player_apply_kill:
  "''<world>'' \<notin> set (players g) \<Longrightarrow> ''<world>'' \<notin> set (players (apply_kill A B g))"
  by simp

lemma scored_are_players_apply_kill:
  "dom (kills g) \<subseteq> set (players g)
   \<Longrightarrow> dom (kills (apply_kill A B g)) \<subseteq> set (players (apply_kill A B g))"
  by (auto simp: apply_kill_kills split: if_splits)

text \<open>
  C10. In every game of the result the names with a score are among the players, and
  this holds after every line of the log (after every processed event), not only at the end.
\<close>

theorem scored_names_are_players:
  assumes "fs file_path = Some (TextFile content)"
  shows "(\<exists>gs. fst (parse_log_file fs p file_path) = Inr gs
            \<and> (\<forall>(k, g) \<in> set gs. dom (kills g) \<subseteq> set (players g)))
       \<and> (\<forall>n. \<forall>(k, g) \<in> set (games (snd (process_lines init_parser (take n content)))).
              dom (kills g) \<subseteq> set (players g))"
proof -
  have "\<forall>(k, g) \<in> set (games (snd (process_lines init_parser ls))).
          dom (kills g) \<subseteq> set (players g)" for ls
  proof (rule games_process_lines [where Q = "\<lambda>g. dom (kills g) \<subseteq> set (players g)"])
    show "dom (kills g) \<subseteq> set (players g)
          \<Longrightarrow> dom (kills (apply_kill A B g)) \<subseteq> set (players (apply_kill A B g))" for A B g
      by (rule scored_are_players_apply_kill)
    show "current_ok init_parser" by simp
  qed (simp_all add: init_parser_def)
  then show ?thesis
    using parse_text_file [of fs file_path content p] assms by simp
qed

theorem scored_names_are_players_witness:
  "example_fs ''log.txt'' = Some (TextFile example_log)
   \<and> (\<exists>gs. fst (parse_log_file example_fs init_parser ''log.txt'') = Inr gs
            \<and> (\<forall>(k, g) \<in> set gs. dom (kills g) \<subseteq> set (players g)))
   \<and> list_all (\<lambda>(k, g). dom (kills g) \<subseteq> set (players g))
        (games (snd (process_lines init_parser (take 3 example_log))))"
proof -
  note c = scored_names_are_players [where fs = example_fs and p = init_parser, OF example_fs_log]
  note d = c [THEN conjunct2, THEN spec [where x = 3], unfolded Ball_set]
  show ?thesis by (intro conjI example_fs_log c [THEN conjunct1] d)
qed

lemma world_never_player:
  "\<forall>(k, g) \<in> set (games (snd (process_lines init_parser ls))). ''<world>'' \<notin> set (players g)"
proof (rule games_process_lines [where Q = "\<lambda>g. ''<world>'' \<notin> set (players g)"])
  show "current_ok init_parser" by simp
qed (simp_all add: init_parser_def)

subsection \<open>One kill event\<close>

text \<open>
  C2, as amended. A kill event with killer \<open>A\<close> other than \<^verbatim>\<open><world>\<close> and victim \<open>B\<close>
  (\<open>A = B\<close> included), processed by a parser whose current id names a game (as it does
  in every state a parse goes through, by \<open>process_lines_ok\<close>), does not raise; in the
  current game (opened first if there was none) it adds 1 to
  \<^verbatim>\<open>total_kills\<close>, sets the score of \<open>A\<close> to its old value, or 0 if it had none, plus 1,
  and leaves the score of every other name as it was. So for a victim \<open>B\<close> other than \<open>A\<close>
  no entry appears and none changes, and in a self-kill the entry of \<open>B\<close> is the entry of
  the killer, created or raised by 1. It makes \<^verbatim>\<open>players\<close> the sorted list without
  duplicates of the old players, \<open>A\<close>, and \<open>B\<close> unless \<open>B\<close> is \<^verbatim>\<open><world>\<close>.
\<close>

theorem player_kill_event:
  assumes "current_ok p"
    and "p1 = (if current_game_id p = None then start_new_game p else p)"
    and "strip g4 = A" and "strip g5 = B" and "A \<noteq> ''<world>''"
  shows "\<exists>gid g g' p'.
       current_game_id p1 = Some gid \<and> map_of (games p1) gid = Some g
     \<and> process_kill_event p (killer_id # victim_id # weapon_id # g4 # g5 # g6 # rest) = (Inr (), p')
     \<and> p' = p1\<lparr>games := AList.update gid g' (games p1)\<rparr>
     \<and> map_of (games p') gid = Some g'
     \<and> total_kills g' = total_kills g + 1
     \<and> kills g' A = Some ((case kills g A of None \<Rightarrow> 0 | Some v \<Rightarrow> v) + 1)
     \<and> (\<forall>C. C \<noteq> A \<longrightarrow> kills g' C = kills g C)
     \<and> (B \<noteq> A \<longrightarrow> kills g' B = kills g B)
     \<and> (B = A \<longrightarrow> kills g' B = Some ((case kills g B of None \<Rightarrow> 0 | Some v \<Rightarrow> v) + 1))
     \<and> A \<in> set (players g') \<and> (B \<noteq> ''<world>'' \<longrightarrow> B \<in> set (players g'))
     \<and> set (players g') = set (players g) \<union> {A} \<union> ({B} - {''<world>''})
     \<and> sorted (players g') \<and> distinct (players g')"
proof -
  have p1: "p1 = with_current_game p" by (simp add: assms(2) with_current_game_def)
  obtain gid where c: "current_game_id p1 = Some gid"
    using with_current_game_has_current [of p] p1 by auto
  from current_ok_lookup [OF _ c] current_ok_with_current_game [OF assms(1)] p1
  obtain g where g: "map_of (games p1) gid = Some g" by auto
  let ?g' = "apply_kill A B g"
  have "process_kill_event p (killer_id # victim_id # weapon_id # g4 # g5 # g6 # rest)
        = (Inr (), p1\<lparr>games := AList.update gid ?g' (games p1)\<rparr>)"
    using process_kill_event_eq [OF assms(2) c g] assms(3,4) by simp
  moreover have "kills ?g' A = Some ((case kills g A of None \<Rightarrow> 0 | Some v \<Rightarrow> v) + 1)"
    using assms(5) by (simp add: apply_kill_kills)
  moreover have "\<forall>C. C \<noteq> A \<longrightarrow> kills ?g' C = kills g C"
    using assms(5) by (simp add: apply_kill_kills)
  moreover have "B \<noteq> A \<longrightarrow> kills ?g' B = kills g B"
    using assms(5) by (simp add: apply_kill_kills)
  moreover have "B = A \<longrightarrow> kills ?g' B = Some ((case kills g B of None \<Rightarrow> 0 | Some v \<Rightarrow> v) + 1)"
    using assms(5) by (simp add: apply_kill_kills)
  moreover have "set (players ?g') = set (players g) \<union> {A} \<union> ({B} - {''<world>''})"
    using assms(5) by auto
  ultimately show ?thesis
    using c g by (intro exI [of _ gid] exI [of _ g] exI [of _ ?g']) (simp add: AList.update_conv')
qed

theorem player_kill_event_witness:
  "current_ok init_parser
   \<and> strip ''Alice'' = ''Alice'' \<and> strip ''Bob'' = ''Bob'' \<and> ''Alice'' \<noteq> ''<world>''
   \<and> (\<exists>gid g g' p'.
       current_game_id (start_new_game init_parser) = Some gid
     \<and> map_of (games (start_new_game init_parser)) gid = Some g
     \<and> process_kill_event init_parser [''1'', ''2'', ''3'', ''Alice'', ''Bob'', ''MOD_ROCKET'']
         = (Inr (), p')
     \<and> p' = (start_new_game init_parser)\<lparr>games :=
               AList.update gid g' (games (start_new_game init_parser))\<rparr>
     \<and> map_of (games p') gid = Some g'
     \<and> total_kills g' = total_kills g + 1
     \<and> kills g' ''Alice'' = Some ((case kills g ''Alice'' of None \<Rightarrow> 0 | Some v \<Rightarrow> v) + 1)
     \<and> (\<forall>C. C \<noteq> ''Alice'' \<longrightarrow> kills g' C = kills g C)
     \<and> (''Bob'' \<noteq> ''Alice'' \<longrightarrow> kills g' ''Bob'' = kills g ''Bob'')
     \<and> (''Bob'' = ''Alice'' \<longrightarrow>
          kills g' ''Bob'' = Some ((case kills g ''Bob'' of None \<Rightarrow> 0 | Some v \<Rightarrow> v) + 1))
     \<and> ''Alice'' \<in> set (players g') \<and> (''Bob'' \<noteq> ''<world>'' \<longrightarrow> ''Bob'' \<in> set (players g'))
     \<and> set (players g') = set (players g) \<union> {''Alice''} \<union> ({''Bob''} - {''<world>''})
     \<and> sorted (players g') \<and> distinct (players g'))"
proof -
  have h1: "current_ok init_parser" by simp
  have h2: "start_new_game init_parser
            = (if current_game_id init_parser = None then start_new_game init_parser else init_parser)"
    by (simp add: init_parser_def)
  have h5: "''Alice'' \<noteq> ''<world>''" by simp
  note c = player_kill_event [OF h1 h2 strip_Alice strip_Bob h5,
      of "''1''" "''2''" "''3''" "''MOD_ROCKET''" "[]"]
  show ?thesis by (intro conjI h1 strip_Alice strip_Bob h5 c)
qed

text \<open>
  C2 as stated fails in two places. For a victim called \<^verbatim>\<open><world>\<close>: the line matches the
  kill pattern with killer \<^verbatim>\<open>Alice\<close>, and after the event the players of the game are
  \<^verbatim>\<open>Alice\<close> alone (line 112 of the source keeps the victim out). And for a self-kill: in
  a game where \<^verbatim>\<open>Alice\<close> has no score, the event in which she kills herself gives the
  victim the entry 1 (line 106 scores the killer, who is the victim).
\<close>

theorem player_kill_counterexample:
  "rx_match kill_pattern ''0:09 Kill: 2 2 7: Alice killed Alice by MOD_ROCKET_SPLASH''
     = Some [''2'', ''2'', ''7'', ''Alice'', ''Alice'', ''MOD_ROCKET_SPLASH'']
   \<and> map fst (games (start_new_game init_parser)) = [''game_1'']
   \<and> kills (snd (hd (games (start_new_game init_parser)))) ''Alice'' = None
   \<and> fst (process_kill_event (start_new_game init_parser)
            [''2'', ''2'', ''7'', ''Alice'', ''Alice'', ''MOD_ROCKET_SPLASH'']) = Inr ()
   \<and> map fst (games (snd (process_kill_event (start_new_game init_parser)
            [''2'', ''2'', ''7'', ''Alice'', ''Alice'', ''MOD_ROCKET_SPLASH'']))) = [''game_1'']
   \<and> kills (snd (hd (games (snd (process_kill_event (start_new_game init_parser)
            [''2'', ''2'', ''7'', ''Alice'', ''Alice'', ''MOD_ROCKET_SPLASH''])))))
         ''Alice'' = Some 1
   \<and> rx_match kill_pattern ''0:07 Kill: 2 1022 22: Alice killed <world> by MOD_TRIGGER_HURT''
     = Some [''2'', ''1022'', ''22'', ''Alice'', ''<world>'', ''MOD_TRIGGER_HURT'']
   \<and> fst (process_kill_event init_parser
            [''2'', ''1022'', ''22'', ''Alice'', ''<world>'', ''MOD_TRIGGER_HURT'']) = Inr ()
   \<and> map fst (games (snd (process_kill_event init_parser
            [''2'', ''1022'', ''22'', ''Alice'', ''<world>'', ''MOD_TRIGGER_HURT'']))) = [''game_1'']
   \<and> map (players \<circ> snd) (games (snd (process_kill_event init_parser
            [''2'', ''1022'', ''22'', ''Alice'', ''<world>'', ''MOD_TRIGGER_HURT'']))) = [[''Alice'']]
   \<and> ''<world>'' \<notin> set [''Alice'']"
  by code_simp

text \<open>
  C3. A kill event with killer \<^verbatim>\<open><world>\<close> and victim \<open>B\<close> other than \<^verbatim>\<open><world>\<close> does not
  raise; in the current game it adds 1 to \<^verbatim>\<open>total_kills\<close>, sets the score of \<open>B\<close> to its
  old value, or 0 if it had none, minus 1 (so a first penalty gives -1), leaves the other
  scores, and adds \<open>B\<close> to the players. And \<^verbatim>\<open><world>\<close> is a player of no game in any result
  of \<^verbatim>\<open>parse_log_file\<close>.
\<close>

theorem world_kill_event:
  assumes "current_ok p"
    and "p1 = (if current_game_id p = None then start_new_game p else p)"
    and "strip g4 = ''<world>''" and "strip g5 = B" and "B \<noteq> ''<world>''"
  shows "(\<exists>gid g g' p'.
       current_game_id p1 = Some gid \<and> map_of (games p1) gid = Some g
     \<and> process_kill_event p (killer_id # victim_id # weapon_id # g4 # g5 # g6 # rest) = (Inr (), p')
     \<and> p' = p1\<lparr>games := AList.update gid g' (games p1)\<rparr>
     \<and> map_of (games p') gid = Some g'
     \<and> total_kills g' = total_kills g + 1
     \<and> kills g' B = Some ((case kills g B of None \<Rightarrow> 0 | Some v \<Rightarrow> v) - 1)
     \<and> (kills g B = None \<longrightarrow> kills g' B = Some (- 1))
     \<and> (\<forall>C. C \<noteq> B \<longrightarrow> kills g' C = kills g C)
     \<and> B \<in> set (players g')
     \<and> set (players g') = set (players g) \<union> {B}
     \<and> sorted (players g') \<and> distinct (players g'))
   \<and> (\<forall>fs q file_path gs. fst (parse_log_file fs q file_path) = Inr gs
          \<longrightarrow> (\<forall>(k, g) \<in> set gs. ''<world>'' \<notin> set (players g)))"
proof -
  have p1: "p1 = with_current_game p" by (simp add: assms(2) with_current_game_def)
  obtain gid where c: "current_game_id p1 = Some gid"
    using with_current_game_has_current [of p] p1 by auto
  from current_ok_lookup [OF _ c] current_ok_with_current_game [OF assms(1)] p1
  obtain g where g: "map_of (games p1) gid = Some g" by auto
  let ?g' = "apply_kill ''<world>'' B g"
  have "process_kill_event p (killer_id # victim_id # weapon_id # g4 # g5 # g6 # rest)
        = (Inr (), p1\<lparr>games := AList.update gid ?g' (games p1)\<rparr>)"
    using process_kill_event_eq [OF assms(2) c g] assms(3,4) by simp
  moreover have "kills ?g' B = Some ((case kills g B of None \<Rightarrow> 0 | Some v \<Rightarrow> v) - 1)"
    using assms(5) by (simp add: apply_kill_kills)
  moreover have "\<forall>C. C \<noteq> B \<longrightarrow> kills ?g' C = kills g C"
    using assms(5) by (simp add: apply_kill_kills)
  moreover have "set (players ?g') = set (players g) \<union> {B}"
    using assms(5) by auto
  ultimately have event: "\<exists>gid g g' p'.
       current_game_id p1 = Some gid \<and> map_of (games p1) gid = Some g
     \<and> process_kill_event p (killer_id # victim_id # weapon_id # g4 # g5 # g6 # rest) = (Inr (), p')
     \<and> p' = p1\<lparr>games := AList.update gid g' (games p1)\<rparr>
     \<and> map_of (games p') gid = Some g'
     \<and> total_kills g' = total_kills g + 1
     \<and> kills g' B = Some ((case kills g B of None \<Rightarrow> 0 | Some v \<Rightarrow> v) - 1)
     \<and> (kills g B = None \<longrightarrow> kills g' B = Some (- 1))
     \<and> (\<forall>C. C \<noteq> B \<longrightarrow> kills g' C = kills g C)
     \<and> B \<in> set (players g')
     \<and> set (players g') = set (players g) \<union> {B}
     \<and> sorted (players g') \<and> distinct (players g')"
    using c g by (intro exI [of _ gid] exI [of _ g] exI [of _ ?g']) (simp add: AList.update_conv')
  have "\<forall>(k, g) \<in> set gs. ''<world>'' \<notin> set (players g)"
    if "fst (parse_log_file fs q file_path) = Inr gs" for fs q file_path gs
  proof (cases "fs file_path")
    case None
    with that show ?thesis by (simp add: parse_log_file_def)
  next
    case (Some nd)
    show ?thesis
    proof (cases nd)
      case (TextFile content)
      with Some that parse_text_file [of fs file_path content q]
      have "gs = games (snd (process_lines init_parser content))" by simp
      with world_never_player [of content] show ?thesis by simp
    next
      case (Undecodable content)
      with Some that show ?thesis
        by (simp add: parse_log_file_def split: prod.splits sum.splits)
    next
      case Unreadable
      with Some that show ?thesis by (simp add: parse_log_file_def)
    qed
  qed
  with event show ?thesis by blast
qed

theorem world_kill_event_witness:
  "current_ok init_parser
   \<and> strip ''<world>'' = ''<world>'' \<and> strip ''Bob'' = ''Bob'' \<and> ''Bob'' \<noteq> ''<world>''
   \<and> (\<exists>gid g g' p'.
       current_game_id (start_new_game init_parser) = Some gid
     \<and> map_of (games (start_new_game init_parser)) gid = Some g
     \<and> process_kill_event init_parser [''1022'', ''2'', ''19'', ''<world>'', ''Bob'', ''MOD_FALLING'']
         = (Inr (), p')
     \<and> p' = (start_new_game init_parser)\<lparr>games :=
               AList.update gid g' (games (start_new_game init_parser))\<rparr>
     \<and> map_of (games p') gid = Some g'
     \<and> total_kills g' = total_kills g + 1
     \<and> kills g' ''Bob'' = Some ((case kills g ''Bob'' of None \<Rightarrow> 0 | Some v \<Rightarrow> v) - 1)
     \<and> (kills g ''Bob'' = None \<longrightarrow> kills g' ''Bob'' = Some (- 1))
     \<and> (\<forall>C. C \<noteq> ''Bob'' \<longrightarrow> kills g' C = kills g C)
     \<and> ''Bob'' \<in> set (players g')
     \<and> set (players g') = set (players g) \<union> {''Bob''}
     \<and> sorted (players g') \<and> distinct (players g'))
   \<and> fst (parse_log_file example_fs init_parser ''log.txt'')
        = Inr (games (snd (process_lines init_parser example_log)))
   \<and> list_all (\<lambda>(k, g). ''<world>'' \<notin> set (players g))
        (games (snd (process_lines init_parser example_log)))"
proof -
  have h1: "current_ok init_parser" by simp
  have h2: "start_new_game init_parser
            = (if current_game_id init_parser = None then start_new_game init_parser else init_parser)"
    by (simp add: init_parser_def)
  have h5: "''Bob'' \<noteq> ''<world>''" by simp
  have r: "fst (parse_log_file example_fs init_parser ''log.txt'')
        = Inr (games (snd (process_lines init_parser example_log)))"
    by (simp add: parse_text_file [of example_fs "''log.txt''" example_log init_parser] example_fs_log)
  note c = world_kill_event [OF h1 h2 strip_world strip_Bob h5,
      of "''1022''" "''2''" "''19''" "''MOD_FALLING''" "[]"]
  note e = c [THEN conjunct1]
  note u = c [THEN conjunct2, THEN spec [where x = example_fs], THEN spec [where x = init_parser],
      THEN spec [where x = "''log.txt''"], THEN spec, THEN mp, OF r, unfolded Ball_set]
  show ?thesis by (intro conjI h1 strip_world strip_Bob h5 e r u)
qed

subsection \<open>Markers only\<close>

lemma games_start_new_game_empty:
  assumes "0 \<le> game_counter p"
    and "games p = map (\<lambda>i. (''game_'' @ str_int i,
            \<lparr>total_kills = 0, players = [], kills = Map.empty\<rparr>)) [1..game_counter p]"
  shows "games (start_new_game p) = map (\<lambda>i. (''game_'' @ str_int i,
            \<lparr>total_kills = 0, players = [], kills = Map.empty\<rparr>)) [1..game_counter p + 1]"
proof -
  have "fst ` set (games p) = (\<lambda>i. ''game_'' @ str_int i) ` set [1..game_counter p]"
    by (subst assms(2)) (simp add: image_image)
  with game_id_fresh [OF assms(1)]
  have "''game_'' @ str_int (game_counter p + 1) \<notin> fst ` set (games p)" by simp
  from update_fresh [OF this] have "games (start_new_game p) = games p @
     [(''game_'' @ str_int (game_counter p + 1), \<lparr>total_kills = 0, players = [], kills = Map.empty\<rparr>)]"
    by simp
  also have "\<dots> = map (\<lambda>i. (''game_'' @ str_int i,
            \<lparr>total_kills = 0, players = [], kills = Map.empty\<rparr>)) [1..game_counter p + 1]"
    using assms(1) by (subst assms(2)) (simp add: upto_rec2 [of 1 "game_counter p + 1"])
  finally show ?thesis .
qed

lemma process_lines_markers_only:
  assumes "\<forall>l \<in> set ls. \<not> is_kill_line l" and "0 \<le> game_counter p"
    and "games p = map (\<lambda>i. (''game_'' @ str_int i,
            \<lparr>total_kills = 0, players = [], kills = Map.empty\<rparr>)) [1..game_counter p]"
  shows "fst (process_lines p ls) = Inr ()
     \<and> games (snd (process_lines p ls)) = map (\<lambda>i. (''game_'' @ str_int i,
            \<lparr>total_kills = 0, players = [], kills = Map.empty\<rparr>))
          [1..game_counter p + int (length (filter is_init_line ls))]"
  using assms
proof (induction ls arbitrary: p)
  case Nil
  then show ?case by simp
next
  case (Cons l ls)
  show ?case
  proof (cases "is_init_line l")
    case True
    have "\<forall>l \<in> set ls. \<not> is_kill_line l" using Cons.prems(1) by simp
    moreover have "0 \<le> game_counter (start_new_game p)" using Cons.prems(2) by simp
    moreover have "games (start_new_game p) = map (\<lambda>i. (''game_'' @ str_int i,
            \<lparr>total_kills = 0, players = [], kills = Map.empty\<rparr>)) [1..game_counter (start_new_game p)]"
      using games_start_new_game_empty [OF Cons.prems(2,3)] by simp
    ultimately have "fst (process_lines (start_new_game p) ls) = Inr ()
     \<and> games (snd (process_lines (start_new_game p) ls)) = map (\<lambda>i. (''game_'' @ str_int i,
            \<lparr>total_kills = 0, players = [], kills = Map.empty\<rparr>))
          [1..game_counter (start_new_game p) + int (length (filter is_init_line ls))]"
      by (rule Cons.IH)
    with True show ?thesis
      by (simp add: process_line_init add.assoc)
  next
    case False
    from Cons.prems(1) have "\<not> is_kill_line l" "\<forall>l \<in> set ls. \<not> is_kill_line l" by simp_all
    with False Cons.IH [OF _ Cons.prems(2,3)] show ?thesis
      by (simp add: process_line_skip)
  qed
qed

text \<open>
  C4. A log without kill lines yields one game for each of its \<open>N\<close> marker lines, in
  order, each with \<^verbatim>\<open>total_kills = 0\<close>, \<^verbatim>\<open>players = []\<close> and \<^verbatim>\<open>kills = {}\<close>: every marker
  opens a fresh game, also right after a game without kills.
\<close>

theorem markers_only_log:
  assumes "fs file_path = Some (TextFile content)"
    and "\<forall>l \<in> set content. \<not> is_kill_line l"
  shows "fst (parse_log_file fs p file_path)
       = Inr (map (\<lambda>i. (''game_'' @ str_int i, \<lparr>total_kills = 0, players = [], kills = Map.empty\<rparr>))
                  [1..int (length (filter is_init_line content))])
     \<and> (\<exists>gs. fst (parse_log_file fs p file_path) = Inr gs
              \<and> length gs = length (filter is_init_line content)
              \<and> (\<forall>(k, g) \<in> set gs. total_kills g = 0 \<and> players g = [] \<and> kills g = Map.empty))"
proof -
  from process_lines_markers_only [of content init_parser] assms(2)
  have "games (snd (process_lines init_parser content))
        = map (\<lambda>i. (''game_'' @ str_int i, \<lparr>total_kills = 0, players = [], kills = Map.empty\<rparr>))
                  [1..int (length (filter is_init_line content))]"
    by (simp add: init_parser_def)
  with parse_text_file [of fs file_path content p] assms(1)
  have r: "fst (parse_log_file fs p file_path)
       = Inr (map (\<lambda>i. (''game_'' @ str_int i, \<lparr>total_kills = 0, players = [], kills = Map.empty\<rparr>))
                  [1..int (length (filter is_init_line content))])" by simp
  then show ?thesis by auto
qed

theorem markers_only_log_witness:
  "[''log.txt'' \<mapsto> TextFile markers_log] ''log.txt'' = Some (TextFile markers_log)
   \<and> list_all (\<lambda>l. \<not> is_kill_line l) markers_log
   \<and> length (filter is_init_line markers_log) = 2
   \<and> fst (parse_log_file [''log.txt'' \<mapsto> TextFile markers_log] init_parser ''log.txt'')
       = Inr (map (\<lambda>i. (''game_'' @ str_int i, \<lparr>total_kills = 0, players = [], kills = Map.empty\<rparr>))
                  [1..int (length (filter is_init_line markers_log))])
   \<and> (\<exists>gs. fst (parse_log_file [''log.txt'' \<mapsto> TextFile markers_log] init_parser ''log.txt'') = Inr gs
              \<and> length gs = length (filter is_init_line markers_log)
              \<and> (\<forall>(k, g) \<in> set gs. total_kills g = 0 \<and> players g = [] \<and> kills g = Map.empty))"
proof -
  have h1: "[''log.txt'' \<mapsto> TextFile markers_log] ''log.txt'' = Some (TextFile markers_log)"
    by simp
  have h2: "\<forall>l \<in> set markers_log. \<not> is_kill_line l" by code_simp
  have n: "length (filter is_init_line markers_log) = 2" by code_simp
  note c = markers_only_log [where fs = "[''log.txt'' \<mapsto> TextFile markers_log]"
      and p = init_parser, OF h1 h2]
  show ?thesis
    by (intro conjI h1 h2 [unfolded Ball_set] n c [THEN conjunct1] c [THEN conjunct2])
qed

subsection \<open>Unrecognized lines\<close>

lemma process_lines_skip:
  "\<forall>l \<in> set ls. \<not> is_init_line l \<and> \<not> is_kill_line l \<Longrightarrow> process_lines p ls = (Inr (), p)"
  by (induction ls) (simp_all add: process_line_skip)

text \<open>
  C7, as amended. A line that is neither a marker nor a kill line (an empty line
  included) leaves the parser as it is and raises nothing, so dropping it from a log
  changes nothing; a parse of a file whose bytes are UTF-8 returns a result whatever its
  lines are; and such a log without markers and without kill lines yields the empty
  dictionary. A file whose bytes are not UTF-8 is not passed over: the parse raises
  \<^verbatim>\<open>UnicodeDecodeError\<close> once the lines before the offending block are processed.
\<close>

theorem unrecognized_lines_skipped:
  "(\<not> is_init_line l \<and> \<not> is_kill_line l \<longrightarrow>
        process_line p l = (Inr (), p)
      \<and> process_lines p (xs @ l # ys) = process_lines p (xs @ ys))
   \<and> (fs file_path = Some (TextFile content) \<longrightarrow>
        (\<exists>gs p'. parse_log_file fs p file_path = (Inr gs, p')))
   \<and> (fs file_path = Some (TextFile content)
        \<and> (\<forall>x \<in> set content. \<not> is_init_line x \<and> \<not> is_kill_line x) \<longrightarrow>
        fst (parse_log_file fs p file_path) = Inr [])
   \<and> (fs file_path = Some (Undecodable content) \<longrightarrow>
        parse_log_file fs p file_path
          = (Inl UnicodeDecodeError, snd (process_lines init_parser content)))"
proof (intro conjI impI)
  assume l: "\<not> is_init_line l \<and> \<not> is_kill_line l"
  then show "process_line p l = (Inr (), p)" by (simp add: process_line_skip)
  from l show "process_lines p (xs @ l # ys) = process_lines p (xs @ ys)"
    by (simp add: process_lines_append process_line_skip split: prod.splits sum.splits)
next
  assume "fs file_path = Some (TextFile content)"
  then show "\<exists>gs p'. parse_log_file fs p file_path = (Inr gs, p')"
    using parse_text_file [of fs file_path content p] by simp
next
  assume "fs file_path = Some (TextFile content)
        \<and> (\<forall>x \<in> set content. \<not> is_init_line x \<and> \<not> is_kill_line x)"
  then show "fst (parse_log_file fs p file_path) = Inr []"
    using parse_text_file [of fs file_path content p] process_lines_skip [of content init_parser]
    by (simp add: init_parser_def)
next
  assume "fs file_path = Some (Undecodable content)"
  then show "parse_log_file fs p file_path
          = (Inl UnicodeDecodeError, snd (process_lines init_parser content))"
    by (rule parse_undecodable_file)
qed

theorem unrecognized_lines_skipped_witness:
  "(\<not> is_init_line ''junk'' \<and> \<not> is_kill_line ''junk'')
   \<and> process_line (start_new_game init_parser) ''junk'' = (Inr (), start_new_game init_parser)
   \<and> process_lines (start_new_game init_parser)
        ([''0:05 Kill: 1 2 3: Alice killed Bob by MOD_ROCKET''] @ ''junk'' # [''0:15 InitGame: ...''])
      = process_lines (start_new_game init_parser)
        ([''0:05 Kill: 1 2 3: Alice killed Bob by MOD_ROCKET''] @ [''0:15 InitGame: ...''])
   \<and> [''log.txt'' \<mapsto> TextFile [''junk'', [], ''12:00 Kill: nonsense'']] ''log.txt''
        = Some (TextFile [''junk'', [], ''12:00 Kill: nonsense''])
   \<and> list_all (\<lambda>x. \<not> is_init_line x \<and> \<not> is_kill_line x)
        [''junk'', [], ''12:00 Kill: nonsense'']
   \<and> (\<exists>gs p'. parse_log_file [''log.txt'' \<mapsto> TextFile [''junk'', [], ''12:00 Kill: nonsense'']]
          init_parser ''log.txt'' = (Inr gs, p'))
   \<and> fst (parse_log_file [''log.txt'' \<mapsto> TextFile [''junk'', [], ''12:00 Kill: nonsense'']]
          init_parser ''log.txt'') = Inr []
   \<and> [''bad.txt'' \<mapsto> Undecodable [''junk'']] ''bad.txt'' = Some (Undecodable [''junk''])
   \<and> parse_log_file [''bad.txt'' \<mapsto> Undecodable [''junk'']] init_parser ''bad.txt''
        = (Inl UnicodeDecodeError, snd (process_lines init_parser [''junk'']))"
proof -
  have h1: "\<not> is_init_line ''junk'' \<and> \<not> is_kill_line ''junk''" by code_simp
  have h4: "[''bad.txt'' \<mapsto> Undecodable [''junk'']] ''bad.txt'' = Some (Undecodable [''junk''])"
    by (rule fun_upd_same)
  note e = unrecognized_lines_skipped [where p = init_parser
      and fs = "[''bad.txt'' \<mapsto> Undecodable [''junk'']]"
      and file_path = "''bad.txt''" and content = "[''junk'']"]
  note e4 = e [THEN conjunct2, THEN conjunct2, THEN conjunct2, THEN mp, OF h4]
  have h2: "[''log.txt'' \<mapsto> TextFile [''junk'', [], ''12:00 Kill: nonsense'']] ''log.txt''
        = Some (TextFile [''junk'', [], ''12:00 Kill: nonsense''])"
    by (rule fun_upd_same)
  have h3: "\<forall>x \<in> set [''junk'', [], ''12:00 Kill: nonsense'']. \<not> is_init_line x \<and> \<not> is_kill_line x"
    by code_simp
  note c = unrecognized_lines_skipped [where l = "''junk''" and p = "start_new_game init_parser"
      and xs = "[''0:05 Kill: 1 2 3: Alice killed Bob by MOD_ROCKET'']"
      and ys = "[''0:15 InitGame: ...'']"]
  note d = unrecognized_lines_skipped [where p = init_parser
      and fs = "[''log.txt'' \<mapsto> TextFile [''junk'', [], ''12:00 Kill: nonsense'']]"
      and file_path = "''log.txt''" and content = "[''junk'', [], ''12:00 Kill: nonsense'']"]
  note c1 = c [THEN conjunct1, THEN mp, OF h1]
  note d2 = d [THEN conjunct2, THEN conjunct1, THEN mp, OF h2]
  note d3 = d [THEN conjunct2, THEN conjunct2, THEN conjunct1, THEN mp, OF conjI [OF h2 h3]]
  show ?thesis
    by (intro conjI h1 [THEN conjunct1] h1 [THEN conjunct2] c1 [THEN conjunct1] c1 [THEN conjunct2]
        h2 h3 [unfolded Ball_set] d2 d3 h4 e4)
qed

text \<open>
  C7 as stated fails on a file that exists, opens, and holds neither a marker nor a kill
  event but a byte that is not UTF-8 (the two bytes \<^verbatim>\<open>ff 0a\<close>, say): the iteration of
  line 47 raises before it yields a line, and the parse fails on content it does not
  recognize.
\<close>

theorem undecodable_counterexample:
  "[''log.txt'' \<mapsto> Undecodable []] ''log.txt'' = Some (Undecodable [])
   \<and> parse_log_file [''log.txt'' \<mapsto> Undecodable []] init_parser ''log.txt''
        = (Inl UnicodeDecodeError, init_parser)"
  by (simp add: parse_log_file_def init_parser_def)

subsection \<open>A kill before any marker\<close>

lemma str_int_1: "str_int 1 = ''1''"
  by code_simp

lemma start_new_game_init:
  "start_new_game init_parser =
     \<lparr>games = [(''game_1'', \<lparr>total_kills = 0, players = [], kills = Map.empty\<rparr>)],
      current_game_id = Some ''game_1'', game_counter = 1\<rparr>"
  by (simp add: start_new_game_def init_parser_def str_int_1 Let_def)

text \<open>
  C5, as amended. When the first line of a log that is a marker or a kill line is a kill
  line, reading it opens exactly one game, under the key \<^verbatim>\<open>game_1\<close> (not \<^verbatim>\<open>match_1\<close>),
  and that game holds this kill: after the line the dictionary is the single entry
  \<^verbatim>\<open>game_1\<close> with \<^verbatim>\<open>total_kills = 1\<close> and the effect of the kill, it is the current game,
  and the rest of the log is parsed from there.
\<close>

theorem kill_before_marker:
  assumes "fs file_path = Some (TextFile (pre @ l # post))"
    and "\<forall>x \<in> set pre. \<not> is_init_line x \<and> \<not> is_kill_line x"
    and "is_kill_line l"
  shows "\<exists>killer_id victim_id weapon_id g4 g5 g6 g1 p1.
       rx_match kill_pattern (strip l) = Some [killer_id, victim_id, weapon_id, g4, g5, g6]
     \<and> g1 = apply_kill (strip g4) (strip g5) \<lparr>total_kills = 0, players = [], kills = Map.empty\<rparr>
     \<and> total_kills g1 = 1
     \<and> p1 = \<lparr>games = [(''game_1'', g1)], current_game_id = Some ''game_1'', game_counter = 1\<rparr>
     \<and> process_lines init_parser (pre @ [l]) = (Inr (), p1)
     \<and> parse_log_file fs p file_path
         = (Inr (games (snd (process_lines p1 post))), snd (process_lines p1 post))"
proof -
  from assms(3) obtain m where m: "rx_match kill_pattern (strip l) = Some m"
    by (auto simp: is_kill_line_def)
  from kill_match_groups [OF m] obtain killer_id victim_id weapon_id g4 g5 g6
    where m6: "m = [killer_id, victim_id, weapon_id, g4, g5, g6]" by blast
  let ?g1 = "apply_kill (strip g4) (strip g5) \<lparr>total_kills = 0, players = [], kills = Map.empty\<rparr>"
  let ?p1 = "\<lparr>games = [(''game_1'', ?g1)], current_game_id = Some ''game_1'', game_counter = 1\<rparr>"
  have eff: "line_effect l = apply_kill (strip g4) (strip g5)"
    using assms(3) m m6 by (simp add: line_effect_def)
  have "process_line init_parser l = (Inr (), map_current (line_effect l) (with_current_game init_parser))"
    by (rule process_line_kill [OF assms(3)]) simp
  also have "with_current_game init_parser = start_new_game init_parser"
    by (simp add: with_current_game_def init_parser_def)
  also have "map_current (line_effect l) (start_new_game init_parser) = ?p1"
    by (simp add: start_new_game_init map_current_def eff)
  finally have line: "process_line init_parser l = (Inr (), ?p1)" .
  have one: "process_lines init_parser (pre @ [l]) = (Inr (), ?p1)"
    using process_lines_skip [OF assms(2), of init_parser] line
    by (simp add: process_lines_append)
  have "process_lines init_parser (pre @ l # post) = process_lines ?p1 post"
    using process_lines_skip [OF assms(2), of init_parser] line
    by (simp add: process_lines_append)
  with parse_text_file [of fs file_path "pre @ l # post" p] assms(1)
  have "parse_log_file fs p file_path
         = (Inr (games (snd (process_lines ?p1 post))), snd (process_lines ?p1 post))" by simp
  with m m6 one show ?thesis by simp
qed

theorem kill_before_marker_witness:
  "[''log.txt'' \<mapsto> TextFile ([''junk''] @ ''0:05 Kill: 1 2 3: Alice killed Bob by MOD_ROCKET''
        # [''0:15 InitGame: ...''])] ''log.txt''
     = Some (TextFile ([''junk''] @ ''0:05 Kill: 1 2 3: Alice killed Bob by MOD_ROCKET''
        # [''0:15 InitGame: ...'']))
   \<and> \<not> is_init_line ''junk'' \<and> \<not> is_kill_line ''junk''
   \<and> is_kill_line ''0:05 Kill: 1 2 3: Alice killed Bob by MOD_ROCKET''
   \<and> (\<exists>killer_id victim_id weapon_id g4 g5 g6 g1 p1.
       rx_match kill_pattern (strip ''0:05 Kill: 1 2 3: Alice killed Bob by MOD_ROCKET'')
         = Some [killer_id, victim_id, weapon_id, g4, g5, g6]
     \<and> g1 = apply_kill (strip g4) (strip g5) \<lparr>total_kills = 0, players = [], kills = Map.empty\<rparr>
     \<and> total_kills g1 = 1
     \<and> p1 = \<lparr>games = [(''game_1'', g1)], current_game_id = Some ''game_1'', game_counter = 1\<rparr>
     \<and> process_lines init_parser ([''junk''] @ [''0:05 Kill: 1 2 3: Alice killed Bob by MOD_ROCKET''])
          = (Inr (), p1)
     \<and> parse_log_file [''log.txt'' \<mapsto> TextFile ([''junk'']
            @ ''0:05 Kill: 1 2 3: Alice killed Bob by MOD_ROCKET'' # [''0:15 InitGame: ...''])]
          init_parser ''log.txt''
         = (Inr (games (snd (process_lines p1 [''0:15 InitGame: ...'']))),
            snd (process_lines p1 [''0:15 InitGame: ...''])))"
proof -
  have h1: "[''log.txt'' \<mapsto> TextFile ([''junk''] @ ''0:05 Kill: 1 2 3: Alice killed Bob by MOD_ROCKET''
        # [''0:15 InitGame: ...''])] ''log.txt''
     = Some (TextFile ([''junk''] @ ''0:05 Kill: 1 2 3: Alice killed Bob by MOD_ROCKET''
        # [''0:15 InitGame: ...'']))"
    by (rule fun_upd_same)
  have h2: "\<forall>x \<in> set [''junk'']. \<not> is_init_line x \<and> \<not> is_kill_line x" by code_simp
  have h3: "is_kill_line ''0:05 Kill: 1 2 3: Alice killed Bob by MOD_ROCKET''" by code_simp
  note c = kill_before_marker [where p = init_parser and file_path = "''log.txt''"
      and pre = "[''junk'']" and l = "''0:05 Kill: 1 2 3: Alice killed Bob by MOD_ROCKET''"
      and post = "[''0:15 InitGame: ...'']"
      and fs = "[''log.txt'' \<mapsto> TextFile ([''junk'']
            @ ''0:05 Kill: 1 2 3: Alice killed Bob by MOD_ROCKET'' # [''0:15 InitGame: ...''])]",
      OF h1 h2 h3]
  have j: "\<not> is_init_line ''junk''" "\<not> is_kill_line ''junk''" using h2 by simp_all
  show ?thesis by (intro conjI h1 j h3 c)
qed

text \<open>
  C5 as stated fails on a log of one kill line: the game it opens is filed under
  \<^verbatim>\<open>game_1\<close>, and the result has no key \<^verbatim>\<open>match_1\<close>.
\<close>

theorem first_kill_counterexample:
  "fst (parse_log_file [''log.txt'' \<mapsto> TextFile [''0:05 Kill: 1 2 3: Alice killed Bob by MOD_ROCKET'']]
          init_parser ''log.txt'')
     = Inr (games (snd (parse_log_file
          [''log.txt'' \<mapsto> TextFile [''0:05 Kill: 1 2 3: Alice killed Bob by MOD_ROCKET'']]
          init_parser ''log.txt'')))
   \<and> map fst (games (snd (parse_log_file
          [''log.txt'' \<mapsto> TextFile [''0:05 Kill: 1 2 3: Alice killed Bob by MOD_ROCKET'']]
          init_parser ''log.txt''))) = [''game_1'']
   \<and> ''match_1'' \<notin> set [''game_1'']"
proof -
  have "map fst (games (snd (process_lines init_parser
          [''0:05 Kill: 1 2 3: Alice killed Bob by MOD_ROCKET'']))) = [''game_1'']"
    by code_simp
  then show ?thesis
    by (simp add: parse_text_file [of "[''log.txt'' \<mapsto>
         TextFile [''0:05 Kill: 1 2 3: Alice killed Bob by MOD_ROCKET'']]" "''log.txt''"
         "[''0:05 Kill: 1 2 3: Alice killed Bob by MOD_ROCKET'']" init_parser])
qed

subsection \<open>Order of the kill events of one game\<close>

lemma with_current_game_idem:
  "current_game_id p \<noteq> None \<Longrightarrow> with_current_game p = p"
  by (auto simp: with_current_game_def)

lemma fold_line_effect_no_kill:
  "\<forall>l \<in> set ls. \<not> is_kill_line l \<Longrightarrow> fold line_effect ls = id"
  by (induction ls) (simp_all add: line_effect_other)

lemma process_lines_no_init:
  assumes "current_ok p" "\<forall>l \<in> set ls. \<not> is_init_line l"
  shows "process_lines p ls =
    (Inr (), if (\<exists>l \<in> set ls. is_kill_line l)
             then map_current (fold line_effect ls) (with_current_game p) else p)"
  using assms
proof (induction ls arbitrary: p)
  case Nil
  then show ?case by simp
next
  case (Cons l ls)
  from Cons.prems(2) have ni: "\<not> is_init_line l" and nis: "\<forall>l \<in> set ls. \<not> is_init_line l"
    by simp_all
  show ?case
  proof (cases "is_kill_line l")
    case True
    let ?p' = "map_current (line_effect l) (with_current_game p)"
    have ok': "current_ok ?p'"
      by (simp add: current_ok_map_current current_ok_with_current_game Cons.prems(1))
    have cur: "with_current_game ?p' = ?p'"
      by (rule with_current_game_idem) (simp add: with_current_game_has_current)
    have "process_lines ?p' ls = (Inr (), map_current (fold line_effect ls) ?p')"
    proof (cases "\<exists>l \<in> set ls. is_kill_line l")
      case True
      with Cons.IH [OF ok' nis] cur show ?thesis by simp
    next
      case False
      with Cons.IH [OF ok' nis] fold_line_effect_no_kill [of ls] show ?thesis
        by (simp add: map_current_id)
    qed
    with True show ?thesis
      by (simp add: process_line_kill [OF True Cons.prems(1)] map_current_comp)
  next
    case False
    with ni Cons.IH [OF Cons.prems(1) nis] show ?thesis
      by (simp add: process_line_skip line_effect_other)
  qed
qed

lemma players_line_effect:
  "set (players (line_effect l g)) = set (players g) \<union> line_names l"
  by (auto simp: line_effect_def line_names_def split: option.splits list.splits)

lemma players_fold_line_effect:
  "set (players (fold line_effect ls g)) = set (players g) \<union> \<Union> (line_names ` set ls)"
  by (induction ls arbitrary: g) (auto simp: players_line_effect)

lemma sorted_line_effect:
  "sorted (players g) \<and> distinct (players g)
   \<Longrightarrow> sorted (players (line_effect l g)) \<and> distinct (players (line_effect l g))"
  using line_effect_cases [of l] by auto

lemma sorted_fold_line_effect:
  "sorted (players g) \<and> distinct (players g)
   \<Longrightarrow> sorted (players (fold line_effect ls g)) \<and> distinct (players (fold line_effect ls g))"
  by (induction ls arbitrary: g) (simp_all add: sorted_line_effect)

lemma players_of_block:
  "players (fold line_effect ls \<lparr>total_kills = 0, players = [], kills = Map.empty\<rparr>)
   = sorted_list_of_set (\<Union> (line_names ` set ls))"
proof -
  let ?g = "fold line_effect ls \<lparr>total_kills = 0, players = [], kills = Map.empty\<rparr>"
  have "sorted (players ?g) \<and> distinct (players ?g)"
    by (rule sorted_fold_line_effect) simp
  then have "sorted_list_of_set (set (players ?g)) = players ?g"
    by (simp add: sorted_list_of_set.idem_if_sorted_distinct)
  then show ?thesis by (simp add: players_fold_line_effect)
qed

lemma process_lines_one_game:
  assumes "current_ok p" "\<forall>l \<in> set ls. \<not> is_init_line l" "current_game_id p \<noteq> None"
  shows "process_lines p ls = (Inr (), map_current (fold line_effect ls) p)"
proof (cases "\<exists>l \<in> set ls. is_kill_line l")
  case True
  with process_lines_no_init [OF assms(1,2)] with_current_game_idem [OF assms(3)]
  show ?thesis by simp
next
  case False
  with process_lines_no_init [OF assms(1,2)] fold_line_effect_no_kill [of ls]
  show ?thesis by (simp add: map_current_id)
qed

lemma game_after_marker:
  assumes "is_init_line m" "\<forall>l \<in> set ls. \<not> is_init_line l"
  shows "\<exists>gid g. current_game_id (snd (process_lines init_parser (pre @ m # ls))) = Some gid
     \<and> map_of (games (snd (process_lines init_parser (pre @ m # ls)))) gid = Some g
     \<and> players g = sorted_list_of_set (\<Union> (line_names ` set ls))"
proof -
  let ?q = "snd (process_lines init_parser pre)"
  let ?gid = "''game_'' @ str_int (game_counter ?q + 1)"
  let ?E = "\<lparr>total_kills = 0, players = [], kills = Map.empty\<rparr>"
  have "process_lines init_parser (pre @ m # ls) = process_lines ?q (m # ls)"
    by (rule process_lines_append_ok) simp
  also have "\<dots> = process_lines (start_new_game ?q) ls"
    using assms(1) by (simp add: process_line_init)
  also have "\<dots> = (Inr (), map_current (fold line_effect ls) (start_new_game ?q))"
    by (rule process_lines_one_game) (simp_all add: assms(2))
  finally have e: "snd (process_lines init_parser (pre @ m # ls))
     = map_current (fold line_effect ls) (start_new_game ?q)" by simp
  have "map_of (games (start_new_game ?q)) ?gid = Some ?E"
    by (simp add: AList.update_conv')
  then have "map_of (games (map_current (fold line_effect ls) (start_new_game ?q))) ?gid
     = Some (fold line_effect ls ?E)"
    by (simp add: map_current_def AList.update_conv')
  with e players_of_block [of ls] show ?thesis
    by (intro exI [of _ ?gid] exI [of _ "fold line_effect ls ?E"]) simp
qed

text \<open>
  C9. Permuting a run of lines of a log that holds no marker (the kill events of one
  game) changes nothing in the outcome of the parse: players and scores of every game are
  the same. When the run follows a marker, the players of that game are the sorted list
  without duplicates of the names other than \<^verbatim>\<open><world>\<close> that the kill lines of the run
  give as killer or victim.
\<close>

theorem kill_order_independent:
  assumes "mset ls = mset ls'" and "\<forall>l \<in> set ls. \<not> is_init_line l"
    and "fs file_path = Some (TextFile (pre @ ls @ post))"
    and "fs' file_path' = Some (TextFile (pre @ ls' @ post))"
  shows "parse_log_file fs p file_path = parse_log_file fs' p' file_path'
     \<and> (\<forall>pre0 m. pre = pre0 @ [m] \<and> is_init_line m \<longrightarrow>
          (\<exists>gid g. current_game_id (snd (process_lines init_parser (pre @ ls))) = Some gid
             \<and> map_of (games (snd (process_lines init_parser (pre @ ls)))) gid = Some g
             \<and> players g = sorted_list_of_set (\<Union> (line_names ` set ls))))"
proof -
  have s: "set ls = set ls'" using assms(1) by (rule mset_eq_setD)
  have f: "fold line_effect ls = fold line_effect ls'"
    by (rule fold_multiset_equiv) (simp_all add: line_effect_commute assms(1))
  let ?q = "snd (process_lines init_parser pre)"
  have ok: "current_ok ?q" using process_lines_ok [of init_parser pre] by simp
  have "process_lines ?q ls = process_lines ?q ls'"
    using process_lines_no_init [OF ok assms(2)] process_lines_no_init [OF ok, of ls'] assms(2) s f
    by simp
  then have "process_lines init_parser (pre @ ls @ post) = process_lines init_parser (pre @ ls' @ post)"
    by (simp add: process_lines_append_ok [of init_parser pre] process_lines_append [of ?q ls]
        process_lines_append [of ?q ls'])
  with parse_text_file [of fs file_path "pre @ ls @ post" p]
    parse_text_file [of fs' file_path' "pre @ ls' @ post" p'] assms(3,4)
  have "parse_log_file fs p file_path = parse_log_file fs' p' file_path'" by simp
  moreover have "\<exists>gid g. current_game_id (snd (process_lines init_parser (pre @ ls))) = Some gid
             \<and> map_of (games (snd (process_lines init_parser (pre @ ls)))) gid = Some g
             \<and> players g = sorted_list_of_set (\<Union> (line_names ` set ls))"
    if "pre = pre0 @ [m] \<and> is_init_line m" for pre0 m
    using game_after_marker [of m ls pre0] that assms(2) by simp
  ultimately show ?thesis by blast
qed

theorem kill_order_independent_witness:
  "mset [''0:05 Kill: 1 2 3: Alice killed Bob by MOD_ROCKET'',
         ''0:10 Kill: 3 2 4: <world> killed Bob by MOD_FALLING'']
     = mset [''0:10 Kill: 3 2 4: <world> killed Bob by MOD_FALLING'',
             ''0:05 Kill: 1 2 3: Alice killed Bob by MOD_ROCKET'']
   \<and> list_all (\<lambda>l. \<not> is_init_line l)
        [''0:05 Kill: 1 2 3: Alice killed Bob by MOD_ROCKET'',
         ''0:10 Kill: 3 2 4: <world> killed Bob by MOD_FALLING'']
   \<and> is_init_line ''0:00 InitGame: ...''
   \<and> parse_log_file
        [''a.txt'' \<mapsto> TextFile (([] @ [''0:00 InitGame: ...''])
           @ [''0:05 Kill: 1 2 3: Alice killed Bob by MOD_ROCKET'',
              ''0:10 Kill: 3 2 4: <world> killed Bob by MOD_FALLING''] @ [])]
        init_parser ''a.txt''
     = parse_log_file
        [''b.txt'' \<mapsto> TextFile (([] @ [''0:00 InitGame: ...''])
           @ [''0:10 Kill: 3 2 4: <world> killed Bob by MOD_FALLING'',
              ''0:05 Kill: 1 2 3: Alice killed Bob by MOD_ROCKET''] @ [])]
        init_parser ''b.txt''
   \<and> (\<exists>gid g. current_game_id (snd (process_lines init_parser (([] @ [''0:00 InitGame: ...''])
           @ [''0:05 Kill: 1 2 3: Alice killed Bob by MOD_ROCKET'',
              ''0:10 Kill: 3 2 4: <world> killed Bob by MOD_FALLING'']))) = Some gid
         \<and> map_of (games (snd (process_lines init_parser (([] @ [''0:00 InitGame: ...''])
           @ [''0:05 Kill: 1 2 3: Alice killed Bob by MOD_ROCKET'',
              ''0:10 Kill: 3 2 4: <world> killed Bob by MOD_FALLING''])))) gid = Some g
         \<and> players g = sorted_list_of_set (\<Union> (line_names `
              set [''0:05 Kill: 1 2 3: Alice killed Bob by MOD_ROCKET'',
                   ''0:10 Kill: 3 2 4: <world> killed Bob by MOD_FALLING''])))"
proof -
  have h1: "mset [''0:05 Kill: 1 2 3: Alice killed Bob by MOD_ROCKET'',
         ''0:10 Kill: 3 2 4: <world> killed Bob by MOD_FALLING'']
     = mset [''0:10 Kill: 3 2 4: <world> killed Bob by MOD_FALLING'',
             ''0:05 Kill: 1 2 3: Alice killed Bob by MOD_ROCKET'']"
    by (simp add: add_mset_commute)
  have h2: "\<forall>l \<in> set [''0:05 Kill: 1 2 3: Alice killed Bob by MOD_ROCKET'',
         ''0:10 Kill: 3 2 4: <world> killed Bob by MOD_FALLING'']. \<not> is_init_line l"
    by code_simp
  have h3: "[''a.txt'' \<mapsto> TextFile (([] @ [''0:00 InitGame: ...''])
           @ [''0:05 Kill: 1 2 3: Alice killed Bob by MOD_ROCKET'',
              ''0:10 Kill: 3 2 4: <world> killed Bob by MOD_FALLING''] @ [])] ''a.txt''
     = Some (TextFile (([] @ [''0:00 InitGame: ...''])
           @ [''0:05 Kill: 1 2 3: Alice killed Bob by MOD_ROCKET'',
              ''0:10 Kill: 3 2 4: <world> killed Bob by MOD_FALLING''] @ []))"
    by (rule fun_upd_same)
  have h4: "[''b.txt'' \<mapsto> TextFile (([] @ [''0:00 InitGame: ...''])
           @ [''0:10 Kill: 3 2 4: <world> killed Bob by MOD_FALLING'',
              ''0:05 Kill: 1 2 3: Alice killed Bob by MOD_ROCKET''] @ [])] ''b.txt''
     = Some (TextFile (([] @ [''0:00 InitGame: ...''])
           @ [''0:10 Kill: 3 2 4: <world> killed Bob by MOD_FALLING'',
              ''0:05 Kill: 1 2 3: Alice killed Bob by MOD_ROCKET''] @ []))"
    by (rule fun_upd_same)
  have h5: "is_init_line ''0:00 InitGame: ...''" by code_simp
  note c = kill_order_independent [where p = init_parser and p' = init_parser
      and file_path = "''a.txt''" and file_path' = "''b.txt''"
      and pre = "[] @ [''0:00 InitGame: ...'']" and post = "[]"
      and ls = "[''0:05 Kill: 1 2 3: Alice killed Bob by MOD_ROCKET'',
                 ''0:10 Kill: 3 2 4: <world> killed Bob by MOD_FALLING'']"
      and ls' = "[''0:10 Kill: 3 2 4: <world> killed Bob by MOD_FALLING'',
                  ''0:05 Kill: 1 2 3: Alice killed Bob by MOD_ROCKET'']"
      and fs = "[''a.txt'' \<mapsto> TextFile (([] @ [''0:00 InitGame: ...''])
           @ [''0:05 Kill: 1 2 3: Alice killed Bob by MOD_ROCKET'',
              ''0:10 Kill: 3 2 4: <world> killed Bob by MOD_FALLING''] @ [])]"
      and fs' = "[''b.txt'' \<mapsto> TextFile (([] @ [''0:00 InitGame: ...''])
           @ [''0:10 Kill: 3 2 4: <world> killed Bob by MOD_FALLING'',
              ''0:05 Kill: 1 2 3: Alice killed Bob by MOD_ROCKET''] @ [])]",
      OF h1 h2 h3 h4]
  note c2 = c [THEN conjunct2, THEN spec [where x = "[]"],
      THEN spec [where x = "''0:00 InitGame: ...''"], THEN mp, OF conjI [OF refl h5]]
  show ?thesis by (intro conjI h1 h2 [unfolded Ball_set] h5 c [THEN conjunct1] c2)
qed

end
